theory Spec2Isabelle
  imports Complex_Main "HOL-Library.List_Lexorder" "HOL-Library.Multiset"
begin

section \<open>Data model\<close>

text \<open>
  The documents of the two collections, after \<^verbatim>\<open>IComment\<close> and \<^verbatim>\<open>IArticle\<close>.
  Counters are JavaScript numbers holding integers; \<^verbatim>\<open>created_at\<close> is the creation time
  as a number of milliseconds. An absent optional field is \<open>None\<close>. The storage key
  \<^verbatim>\<open>_id\<close> of an article is never read by the routers and is left out.
\<close>

record author =
  au_id :: string
  au_name :: string
  au_img :: "string option"

record comment =
  c_id :: string
  c_article_id :: string
  c_body :: string
  c_parent :: "string option"
  c_likes :: "string list"
  c_likes_count :: int
  c_replies_count :: int
  c_created_at :: int
  c_author :: "author option"

record article =
  a_article_id :: string
  a_likes :: "string list"
  a_likes_count :: int
  a_comments_count :: int
  a_replies_count :: int

text \<open>The store: the comments collection and the articles collection, in insertion order.\<close>

type_synonym store = "comment list \<times> article list"

text \<open>A failed request: the HTTP status and the message sent with it.\<close>

type_synonym failure = "nat \<times> string"

text \<open>
  JavaScript truthiness of an optional string, as tested by \<^verbatim>\<open>if (parent)\<close> and
  \<^verbatim>\<open>comment.parent ? .. : ..\<close>: \<^verbatim>\<open>undefined\<close> and the empty string are falsy.
\<close>

fun truthy :: "string option \<Rightarrow> bool" where
  "truthy None = False"
| "truthy (Some s) = (s \<noteq> [])"

section \<open>The entity store\<close>

text \<open>
  Modelled from the spec: the Mongoose models \<^verbatim>\<open>Comment\<close> and \<^verbatim>\<open>Article\<close>
  (\<^verbatim>\<open>../models/comment\<close>, \<^verbatim>\<open>../models/article\<close>) are not part of the sources. The
  operations below follow the entity store contract: find-by-key returns the first
  matching document, update-by-filter changes the first matching document and is a
  no-op when nothing matches, delete-by-key removes the first matching document and
  returns it, insert appends.
\<close>

fun update_first :: "('a \<Rightarrow> bool) \<Rightarrow> ('a \<Rightarrow> 'a) \<Rightarrow> 'a list \<Rightarrow> 'a list" where
  "update_first P f [] = []"
| "update_first P f (x # xs) = (if P x then f x # xs else x # update_first P f xs)"

fun delete_first :: "('a \<Rightarrow> bool) \<Rightarrow> 'a list \<Rightarrow> 'a list" where
  "delete_first P [] = []"
| "delete_first P (x # xs) = (if P x then xs else x # delete_first P xs)"

definition findById :: "comment list \<Rightarrow> string \<Rightarrow> comment option" where
  "findById cs i = find (\<lambda>c. c_id c = i) cs"

definition findByIdAndUpdate :: "comment list \<Rightarrow> string \<Rightarrow> (comment \<Rightarrow> comment) \<Rightarrow> comment list" where
  "findByIdAndUpdate cs i f = update_first (\<lambda>c. c_id c = i) f cs"

definition findByIdAndDelete :: "comment list \<Rightarrow> string \<Rightarrow> comment option \<times> comment list" where
  "findByIdAndDelete cs i = (findById cs i, delete_first (\<lambda>c. c_id c = i) cs)"

definition findOne :: "article list \<Rightarrow> string \<Rightarrow> article option" where
  "findOne as aid = find (\<lambda>a. a_article_id a = aid) as"

definition findOneAndUpdate :: "article list \<Rightarrow> string \<Rightarrow> (article \<Rightarrow> article) \<Rightarrow> article list" where
  "findOneAndUpdate as aid f = update_first (\<lambda>a. a_article_id a = aid) f as"

section \<open>Likes\<close>

text \<open>
  \<^verbatim>\<open>POST /replyke-articles/like\<close> and \<^verbatim>\<open>POST /replyke-articles/unlike\<close>
  (\<^verbatim>\<open>routers/articles.ts\<close>, lines 24-139). A handler takes the store and the fields
  of the parsed request body, and returns its response and the store it leaves behind.
\<close>

definition post_replyke_articles_like ::
    "store \<Rightarrow> string \<Rightarrow> string \<Rightarrow> (failure + article) \<times> store" where
  "post_replyke_articles_like st article_id user_id =
     (case findOne (snd st) article_id of
        Some article \<Rightarrow>
          if user_id \<in> set (a_likes article)
          then (Inl (406, ''User already liked article''), st)
          else (Inr (article\<lparr>a_likes_count := a_likes_count article + 1,
                             a_likes := a_likes article @ [user_id]\<rparr>),
                (fst st,
                 findOneAndUpdate (snd st) article_id
                   (\<lambda>a. a\<lparr>a_likes_count := a_likes_count a + 1,
                           a_likes := a_likes a @ [user_id]\<rparr>)))
      | None \<Rightarrow>
          (let newArticle = \<lparr>a_article_id = article_id, a_likes = [user_id],
                              a_likes_count = 1, a_comments_count = 0, a_replies_count = 0\<rparr>
           in (Inr newArticle, (fst st, snd st @ [newArticle]))))"

definition post_replyke_articles_unlike ::
    "store \<Rightarrow> string \<Rightarrow> string \<Rightarrow> (failure + article) \<times> store" where
  "post_replyke_articles_unlike st article_id user_id =
     (case findOne (snd st) article_id of
        None \<Rightarrow> (Inl (404, ''Article not found''), st)
      | Some article \<Rightarrow>
          if user_id \<notin> set (a_likes article)
          then (Inl (406, ''Can't unlike, as user didn't like article''), st)
          else (Inr (article\<lparr>a_likes_count := a_likes_count article - 1,
                             a_likes := filter (\<lambda>l. l \<noteq> user_id) (a_likes article)\<rparr>),
                (fst st,
                 findOneAndUpdate (snd st) article_id
                   (\<lambda>a. a\<lparr>a_likes_count := a_likes_count a - 1,
                           a_likes := filter (\<lambda>l. l \<noteq> user_id) (a_likes a)\<rparr>))))"

text \<open>
  \<^verbatim>\<open>POST /comments/like\<close> and \<^verbatim>\<open>POST /comments/unlike\<close> (the comments router,
  lines 270-354).
\<close>

definition post_comments_like ::
    "store \<Rightarrow> string \<Rightarrow> string \<Rightarrow> (failure + comment) \<times> store" where
  "post_comments_like st comment_id user_id =
     (case findById (fst st) comment_id of
        None \<Rightarrow> (Inl (404, ''Comment not found''), st)
      | Some comment \<Rightarrow>
          if user_id \<in> set (c_likes comment)
          then (Inl (406, ''Can't like - user already liked comment''), st)
          else (Inr (comment\<lparr>c_likes_count := c_likes_count comment + 1,
                             c_likes := c_likes comment @ [user_id]\<rparr>),
                (findByIdAndUpdate (fst st) comment_id
                   (\<lambda>c. c\<lparr>c_likes_count := c_likes_count c + 1,
                           c_likes := c_likes c @ [user_id]\<rparr>),
                 snd st)))"

definition post_comments_unlike ::
    "store \<Rightarrow> string \<Rightarrow> string \<Rightarrow> (failure + comment) \<times> store" where
  "post_comments_unlike st comment_id user_id =
     (case findById (fst st) comment_id of
        None \<Rightarrow> (Inl (404, ''Comment not found''), st)
      | Some comment \<Rightarrow>
          if user_id \<notin> set (c_likes comment)
          then (Inl (406, ''Can't unlike, as user didn't like comment''), st)
          else (Inr (comment\<lparr>c_likes_count := c_likes_count comment - 1,
                             c_likes := filter (\<lambda>l. l \<noteq> user_id) (c_likes comment)\<rparr>),
                (findByIdAndUpdate (fst st) comment_id
                   (\<lambda>c. c\<lparr>c_likes_count := c_likes_count c - 1,
                           c_likes := filter (\<lambda>l. l \<noteq> user_id) (c_likes c)\<rparr>),
                 snd st)))"

section \<open>Creating and updating comments\<close>

text \<open>
  \<^verbatim>\<open>POST /comments\<close> (the comments router, lines 79-162). The key the store assigns
  to the new document and the time of the request are inputs \<open>new_id\<close> and \<open>now\<close>.
  The comment is saved first; the parent's counter is then raised by an update by key,
  whose result is not looked at.
\<close>

definition post_comments ::
    "store \<Rightarrow> string \<Rightarrow> string \<Rightarrow> string option \<Rightarrow> author option \<Rightarrow> string \<Rightarrow> int
       \<Rightarrow> (failure + comment) \<times> store" where
  "post_comments st article_id comment_body parent author new_id now =
     (let comment = \<lparr>c_id = new_id, c_article_id = article_id, c_body = comment_body,
                      c_parent = parent, c_likes = [], c_likes_count = 0,
                      c_replies_count = 0, c_created_at = now, c_author = author\<rparr>;
          saved = fst st @ [comment];
          cs = (case parent of
                  None \<Rightarrow> saved
                | Some p \<Rightarrow>
                    if truthy (Some p)
                    then findByIdAndUpdate saved p
                           (\<lambda>c. c\<lparr>c_replies_count := c_replies_count c + 1\<rparr>)
                    else saved)
      in case findOne (snd st) article_id of
           Some article \<Rightarrow>
             if truthy parent
             then (Inr comment,
                   (cs, findOneAndUpdate (snd st) article_id
                          (\<lambda>a. a\<lparr>a_replies_count := a_replies_count a + 1\<rparr>)))
             else (Inr comment,
                   (cs, findOneAndUpdate (snd st) article_id
                          (\<lambda>a. a\<lparr>a_comments_count := a_comments_count a + 1\<rparr>)))
         | None \<Rightarrow>
             (Inr comment,
              (cs, snd st @ [\<lparr>a_article_id = article_id, a_likes = [], a_likes_count = 0,
                               a_comments_count = 1, a_replies_count = 0\<rparr>])))"

text \<open>
  \<^verbatim>\<open>POST /replyke-comments\<close> (\<^verbatim>\<open>routers/articles.ts\<close>, lines 333-390): the same,
  behind a check of the required fields.
\<close>

definition post_replyke_comments ::
    "store \<Rightarrow> string \<Rightarrow> string \<Rightarrow> string option \<Rightarrow> author option \<Rightarrow> string \<Rightarrow> int
       \<Rightarrow> (failure + comment) \<times> store" where
  "post_replyke_comments st article_id comment_body parent author new_id now =
     (if article_id = [] \<or> comment_body = [] \<or> author = None
      then (Inl (400, ''Missing required comment details''), st)
      else
       (let comment = \<lparr>c_id = new_id, c_article_id = article_id, c_body = comment_body,
                        c_parent = parent, c_likes = [], c_likes_count = 0,
                        c_replies_count = 0, c_created_at = now, c_author = author\<rparr>;
            saved = fst st @ [comment];
            cs = (case parent of
                    None \<Rightarrow> saved
                  | Some p \<Rightarrow>
                      if truthy (Some p)
                      then findByIdAndUpdate saved p
                             (\<lambda>c. c\<lparr>c_replies_count := c_replies_count c + 1\<rparr>)
                      else saved)
        in case findOne (snd st) article_id of
             Some article \<Rightarrow>
               (Inr comment,
                (cs, findOneAndUpdate (snd st) article_id
                       (if truthy parent
                        then (\<lambda>a. a\<lparr>a_replies_count := a_replies_count a + 1\<rparr>)
                        else (\<lambda>a. a\<lparr>a_comments_count := a_comments_count a + 1\<rparr>))))
           | None \<Rightarrow>
               (Inr comment,
                (cs, snd st @ [\<lparr>a_article_id = article_id, a_likes = [], a_likes_count = 0,
                                 a_comments_count = 1, a_replies_count = 0\<rparr>]))))"

text \<open>
  \<^verbatim>\<open>PATCH /comments\<close> (the comments router, lines 257-268): the update is issued and
  200 is sent whatever it found.
\<close>

definition patch_comments :: "store \<Rightarrow> string \<Rightarrow> string \<Rightarrow> (failure + unit) \<times> store" where
  "patch_comments st update comment_id =
     (Inr (), (findByIdAndUpdate (fst st) comment_id (\<lambda>c. c\<lparr>c_body := update\<rparr>), snd st))"

text \<open>
  \<^verbatim>\<open>PATCH /replyke-comments\<close> (\<^verbatim>\<open>routers/articles.ts\<close>, lines 472-499): both
  fields are required, and the updated document is sent back, or 404 when there is none.
\<close>

definition patch_replyke_comments ::
    "store \<Rightarrow> string \<Rightarrow> string \<Rightarrow> (failure + comment) \<times> store" where
  "patch_replyke_comments st update comment_id =
     (if update = [] \<or> comment_id = []
      then (Inl (400, ''Update content and comment ID are required''), st)
      else
       (case findById (fst st) comment_id of
          None \<Rightarrow> (Inl (404, ''Comment not found or update failed''), st)
        | Some c \<Rightarrow>
            (Inr (c\<lparr>c_body := update\<rparr>),
             (findByIdAndUpdate (fst st) comment_id (\<lambda>c. c\<lparr>c_body := update\<rparr>), snd st))))"

section \<open>Deleting a comment and its replies\<close>

text \<open>
  \<^verbatim>\<open>deleteCommentAndChildren\<close> (the comments router, lines 185-216, and
  \<^verbatim>\<open>routers/articles.ts\<close>, lines 415-435, which differs in the text of the error
  only). The closure variables \<^verbatim>\<open>firstLevelCommentsDeletedCount\<close> and
  \<^verbatim>\<open>repliesDeletedCount\<close> are threaded through with the comments collection.
  \<open>deleteChildren\<close> is the \<^verbatim>\<open>for\<close> loop over the replies found. A thrown error is
  \<open>Inl\<close>, with the state reached when it was thrown: nothing is rolled back.
\<close>

type_synonym del_state = "comment list \<times> int \<times> int"

function deleteCommentAndChildren ::
    "del_state \<Rightarrow> string \<Rightarrow> (string \<times> del_state) + del_state"
  and deleteChildren ::
    "del_state \<Rightarrow> string list \<Rightarrow> (string \<times> del_state) + del_state"
where
  "deleteCommentAndChildren (cs, firstLevelCommentsDeletedCount, repliesDeletedCount) commentId =
     (case findByIdAndDelete cs commentId of
        (None, cs') \<Rightarrow>
          Inl (''Comment not found'',
               (cs', firstLevelCommentsDeletedCount, repliesDeletedCount))
      | (Some comment, cs') \<Rightarrow>
          deleteChildren
            (if truthy (c_parent comment)
             then (cs', firstLevelCommentsDeletedCount, repliesDeletedCount + 1)
             else (cs', firstLevelCommentsDeletedCount + 1, repliesDeletedCount))
            (map c_id (filter (\<lambda>c. c_parent c = Some (c_id comment)) cs')))"
| "deleteChildren st [] = Inr st"
| "deleteChildren st (childId # childComments) =
     (case deleteCommentAndChildren st childId of
        Inl err \<Rightarrow> Inl err
      | Inr st' \<Rightarrow> deleteChildren st' childComments)"
  by pat_completeness auto

text \<open>
  Every call that does not throw removes a document, so the collection never grows;
  this is what the recursion terminates on.
\<close>

lemma length_delete_first: "length (delete_first P xs) \<le> length xs"
  by (induction xs) auto

lemma length_delete_first_found:
  "find P xs = Some x \<Longrightarrow> length (delete_first P xs) < length xs"
  by (induction xs) (auto split: if_splits)

lemma deleteCommentAndChildren_length_dom:
  "deleteCommentAndChildren_deleteChildren_dom (Inl (st, i)) \<Longrightarrow>
     (\<forall>st'. deleteCommentAndChildren st i = Inr st' \<longrightarrow> length (fst st') \<le> length (fst st))"
  "deleteCommentAndChildren_deleteChildren_dom (Inr (st, ks)) \<Longrightarrow>
     (\<forall>st'. deleteChildren st ks = Inr st' \<longrightarrow> length (fst st') \<le> length (fst st))"
proof (induction st i and st ks rule: deleteCommentAndChildren_deleteChildren.pinduct)
  case (1 cs firstLevel replies commentId)
  show ?case
  proof (intro allI impI)
    fix st'
    assume r: "deleteCommentAndChildren (cs, firstLevel, replies) commentId = Inr st'"
    obtain x y where xy: "findByIdAndDelete cs commentId = (x, y)"
      by (cases "findByIdAndDelete cs commentId")
    from r xy 1(1) obtain c where c: "x = Some c"
      by (cases x) (auto simp: deleteCommentAndChildren.psimps)
    have "length y \<le> length cs"
      using xy by (auto simp: findByIdAndDelete_def length_delete_first)
    moreover have "length (fst st') \<le> length y"
      using 1(2)[OF xy[symmetric] c] r xy c 1(1)
      by (cases st') (auto simp: deleteCommentAndChildren.psimps split: if_splits)
    ultimately show "length (fst st') \<le> length (fst (cs, firstLevel, replies))"
      by simp
  qed
next
  case (2 st)
  then show ?case by (simp add: deleteChildren.psimps)
next
  case (3 st childId rest)
  show ?case
  proof (intro allI impI)
    fix st'
    assume r: "deleteChildren st (childId # rest) = Inr st'"
    from r 3(1) obtain b where b: "deleteCommentAndChildren st childId = Inr b"
      and b2: "deleteChildren b rest = Inr st'"
      by (auto simp: deleteChildren.psimps split: sum.splits)
    from 3(2) b have "length (fst b) \<le> length (fst st)" by blast
    moreover from 3(3)[OF b] b2 have "length (fst st') \<le> length (fst b)" by blast
    ultimately show "length (fst st') \<le> length (fst st)" by simp
  qed
qed

termination deleteCommentAndChildren
proof (relation "measures
    [\<lambda>x. case x of Inl (st, _) \<Rightarrow> length (fst st) | Inr (st, _) \<Rightarrow> length (fst st),
     \<lambda>x. case x of Inl _ \<Rightarrow> 0 | Inr (_, ks) \<Rightarrow> Suc (length ks)]", goal_cases)
  case 1
  show ?case by simp
next
  case (2 cs firstLevel replies commentId x y x2)
  then have "find (\<lambda>c. c_id c = commentId) cs = Some x2"
    and "y = delete_first (\<lambda>c. c_id c = commentId) cs"
    by (auto simp: findByIdAndDelete_def findById_def)
  then have "length y < length cs" by (simp add: length_delete_first_found)
  then show ?case by (auto split: if_splits)
next
  case (3 st childId rest)
  then show ?case by (cases st) auto
next
  case (4 st childId rest b)
  from deleteCommentAndChildren_length_dom(1)[OF 4(2)] 4(1)
  have "length (fst b) \<le> length (fst st)" by blast
  then show ?case by (cases st; cases b) auto
qed

text \<open>
  \<^verbatim>\<open>DELETE /comments\<close> (the comments router, lines 164-255). The target is read
  first; after the recursion its parent's \<^verbatim>\<open>replies_count\<close> is lowered by an update
  by key, and the article's two counters are lowered in one update. A thrown error is
  answered with 500 and its message.
\<close>

definition delete_comments :: "store \<Rightarrow> string \<Rightarrow> (failure + article) \<times> store" where
  "delete_comments st comment_id =
     (case findById (fst st) comment_id of
        None \<Rightarrow> (Inl (500, ''Comment not found''), st)
      | Some targetComment \<Rightarrow>
         (case deleteCommentAndChildren (fst st, 0, 0) comment_id of
            Inl (err, (cs', _, _)) \<Rightarrow> (Inl (500, err), (cs', snd st))
          | Inr (cs', firstLevelCommentsDeletedCount, repliesDeletedCount) \<Rightarrow>
             (let cs'' = (case c_parent targetComment of
                            None \<Rightarrow> cs'
                          | Some p \<Rightarrow>
                              if truthy (Some p)
                              then findByIdAndUpdate cs' p
                                     (\<lambda>c. c\<lparr>c_replies_count := c_replies_count c - 1\<rparr>)
                              else cs')
              in case findOne (snd st) (c_article_id targetComment) of
                   None \<Rightarrow> (Inl (500, ''No article found''), (cs'', snd st))
                 | Some article \<Rightarrow>
                     (Inr (article\<lparr>a_comments_count :=
                                     a_comments_count article - firstLevelCommentsDeletedCount,
                                   a_replies_count :=
                                     a_replies_count article - repliesDeletedCount\<rparr>),
                      (cs'',
                       findOneAndUpdate (snd st) (c_article_id targetComment)
                         (\<lambda>a. a\<lparr>a_comments_count :=
                                   a_comments_count a - firstLevelCommentsDeletedCount,
                                 a_replies_count :=
                                   a_replies_count a - repliesDeletedCount\<rparr>))))))"

text \<open>
  \<^verbatim>\<open>DELETE /replyke-comments\<close> (\<^verbatim>\<open>routers/articles.ts\<close>, lines 393-469): an empty
  id is refused with 400, an unknown one with 404, and every thrown error is answered
  with 500 and the text \<^verbatim>\<open>Server error\<close>.
\<close>

definition delete_replyke_comments :: "store \<Rightarrow> string \<Rightarrow> (failure + article) \<times> store" where
  "delete_replyke_comments st comment_id =
     (if comment_id = [] then (Inl (400, ''Comment ID is required''), st)
      else
       (case findById (fst st) comment_id of
          None \<Rightarrow> (Inl (404, ''Comment not found''), st)
        | Some targetComment \<Rightarrow>
           (case deleteCommentAndChildren (fst st, 0, 0) comment_id of
              Inl (err, (cs', _, _)) \<Rightarrow> (Inl (500, ''Server error''), (cs', snd st))
            | Inr (cs', firstLevelCommentsDeletedCount, repliesDeletedCount) \<Rightarrow>
               (let cs'' = (case c_parent targetComment of
                              None \<Rightarrow> cs'
                            | Some p \<Rightarrow>
                                if truthy (Some p)
                                then findByIdAndUpdate cs' p
                                       (\<lambda>c. c\<lparr>c_replies_count := c_replies_count c - 1\<rparr>)
                                else cs')
                in case findOne (snd st) (c_article_id targetComment) of
                     None \<Rightarrow> (Inl (500, ''Server error''), (cs'', snd st))
                   | Some article \<Rightarrow>
                       (Inr (article\<lparr>a_comments_count :=
                                       a_comments_count article - firstLevelCommentsDeletedCount,
                                     a_replies_count :=
                                       a_replies_count article - repliesDeletedCount\<rparr>),
                        (cs'',
                         findOneAndUpdate (snd st) (c_article_id targetComment)
                           (\<lambda>a. a\<lparr>a_comments_count :=
                                     a_comments_count a - firstLevelCommentsDeletedCount,
                                   a_replies_count :=
                                     a_replies_count a - repliesDeletedCount\<rparr>)))))))"

text \<open>
  The subtree of a comment, in the words of the glossary: the comment and all its
  transitive descendants, a reply being a comment whose \<^verbatim>\<open>parent\<close> is the key of its
  parent.
\<close>

inductive_set descendants :: "comment list \<Rightarrow> string \<Rightarrow> comment set"
  for cs :: "comment list" and target :: string
where
  target: "c \<in> set cs \<Longrightarrow> c_id c = target \<Longrightarrow> c \<in> descendants cs target"
| reply: "p \<in> descendants cs target \<Longrightarrow> c \<in> set cs \<Longrightarrow> c_parent c = Some (c_id p)
            \<Longrightarrow> c \<in> descendants cs target"

section \<open>Listing comments\<close>

text \<open>
  A JavaScript number, as \<^verbatim>\<open>Number(..)\<close> returns it for a query parameter. A finite
  value is the rational it denotes: the comparison and the remainder of two doubles are
  exact, and so are the difference and the product below as long as their values are
  integers under \<open>2 ^ 53\<close>, far beyond the size of any collection.
\<close>

datatype number = NaN | PosInf | NegInf | Fin rat

fun isNaN :: "number \<Rightarrow> bool" where
  "isNaN NaN = True"
| "isNaN _ = False"

text \<open>\<^verbatim>\<open>a < b\<close>, \<^verbatim>\<open>a != b\<close>, \<^verbatim>\<open>a % b\<close>, \<^verbatim>\<open>a - b\<close> and \<^verbatim>\<open>a * b\<close>.\<close>

fun js_lt :: "number \<Rightarrow> number \<Rightarrow> bool" where
  "js_lt (Fin a) (Fin b) = (a < b)"
| "js_lt (Fin a) PosInf = True"
| "js_lt NegInf (Fin b) = True"
| "js_lt NegInf PosInf = True"
| "js_lt _ _ = False"

fun js_ne :: "number \<Rightarrow> number \<Rightarrow> bool" where
  "js_ne NaN _ = True"
| "js_ne _ NaN = True"
| "js_ne a b = (a \<noteq> b)"

definition trunc :: "rat \<Rightarrow> int" where
  "trunc q = (if 0 \<le> q then \<lfloor>q\<rfloor> else \<lceil>q\<rceil>)"

fun js_mod :: "number \<Rightarrow> number \<Rightarrow> number" where
  "js_mod (Fin a) (Fin b) = (if b = 0 then NaN else Fin (a - b * of_int (trunc (a / b))))"
| "js_mod (Fin a) PosInf = Fin a"
| "js_mod (Fin a) NegInf = Fin a"
| "js_mod _ _ = NaN"

fun js_sub :: "number \<Rightarrow> number \<Rightarrow> number" where
  "js_sub (Fin a) (Fin b) = Fin (a - b)"
| "js_sub NaN _ = NaN"
| "js_sub _ NaN = NaN"
| "js_sub PosInf PosInf = NaN"
| "js_sub NegInf NegInf = NaN"
| "js_sub PosInf _ = PosInf"
| "js_sub NegInf _ = NegInf"
| "js_sub (Fin a) PosInf = NegInf"
| "js_sub (Fin a) NegInf = PosInf"

fun js_mul :: "number \<Rightarrow> number \<Rightarrow> number" where
  "js_mul (Fin a) (Fin b) = Fin (a * b)"
| "js_mul NaN _ = NaN"
| "js_mul _ NaN = NaN"
| "js_mul (Fin a) PosInf = (if a = 0 then NaN else if 0 < a then PosInf else NegInf)"
| "js_mul (Fin a) NegInf = (if a = 0 then NaN else if 0 < a then NegInf else PosInf)"
| "js_mul PosInf (Fin b) = (if b = 0 then NaN else if 0 < b then PosInf else NegInf)"
| "js_mul NegInf (Fin b) = (if b = 0 then NaN else if 0 < b then NegInf else PosInf)"
| "js_mul PosInf PosInf = PosInf"
| "js_mul NegInf NegInf = PosInf"
| "js_mul PosInf NegInf = NegInf"
| "js_mul NegInf PosInf = NegInf"

text \<open>
  A sort document: the fields to sort on, most significant first, each with its
  direction (\<open>1\<close> ascending, \<open>-1\<close> descending). The empty one asks for no sorting.
\<close>

datatype sort_field = Likes_count | Created_at

type_synonym sort_order = "(sort_field \<times> int) list"

definition field_of :: "sort_field \<Rightarrow> comment \<Rightarrow> int" where
  "field_of f c = (case f of Likes_count \<Rightarrow> c_likes_count c | Created_at \<Rightarrow> c_created_at c)"

definition sort_key_of :: "sort_order \<Rightarrow> comment \<Rightarrow> int list" where
  "sort_key_of order c = map (\<lambda>(f, d). d * field_of f c) order"

definition is_nat :: "rat \<Rightarrow> bool" where
  "is_nat q = (0 \<le> q \<and> of_int \<lfloor>q\<rfloor> = q)"

text \<open>
  Modelled from the spec: the query
  \<^verbatim>\<open>Comment.find({article_id, parent}).limit(l).skip(s).sort(o)\<close> runs in the store,
  which is not part of the sources. The filter is read as the listing contract words it:
  a \<^verbatim>\<open>parent\<close> that is given restricts the result to the direct children of that
  value, and when it is omitted the filter is not applied and all comments of the
  article are eligible. What is proved about listings below holds for the matching
  comments whatever they are, and does not depend on this reading.
\<close>

definition matching :: "comment list \<Rightarrow> string \<Rightarrow> string option \<Rightarrow> comment list" where
  "matching cs article_id parent =
     filter (\<lambda>c. c_article_id c = article_id \<and>
                 (case parent of None \<Rightarrow> True | Some p \<Rightarrow> c_parent c = Some p)) cs"

text \<open>
  Modelled from the spec: after the entity store contract
  \<^verbatim>\<open>find(filter, sort, skip, limit)\<close>, the store sorts the matching documents
  (lexicographically on the fields of the sort document, documents with equal keys
  staying in store order), skips the first \<open>s\<close> and returns at most \<open>l\<close> of the rest.
  The contract covers a natural \<open>s\<close> and a natural \<open>l \<ge> 1\<close>; what the store does with
  any other value is not specified, and is modelled as a failed store call.
\<close>

definition find_comments ::
    "comment list \<Rightarrow> string \<Rightarrow> string option \<Rightarrow> sort_order \<Rightarrow> number \<Rightarrow> number
       \<Rightarrow> string + comment list" where
  "find_comments cs article_id parent order skip limit =
     (case (skip, limit) of
        (Fin s, Fin l) \<Rightarrow>
          if is_nat s \<and> is_nat l \<and> 1 \<le> l
          then Inr (take (nat \<lfloor>l\<rfloor>)
                      (drop (nat \<lfloor>s\<rfloor>)
                         (sort_key (sort_key_of order) (matching cs article_id parent))))
          else Inl ''store error''
      | _ \<Rightarrow> Inl ''store error'')"

text \<open>The sort document chosen by \<^verbatim>\<open>sort_by\<close>: three tests in a row, over \<^verbatim>\<open>{}\<close>.\<close>

definition resolve_sort :: "string option \<Rightarrow> sort_order" where
  "resolve_sort sort_by =
     (let sort = [];
          sort = (if sort_by = Some ''popular'' then [(Likes_count, -1), (Created_at, -1)] else sort);
          sort = (if sort_by = Some ''newest'' then [(Created_at, -1)] else sort);
          sort = (if sort_by = Some ''oldest'' then [(Created_at, 1)] else sort)
      in sort)"

text \<open>
  \<^verbatim>\<open>GET /comments\<close> (the comments router, lines 10-77). \<open>limitAsNumber\<close> and
  \<open>pageAsNumber\<close> are \<^verbatim>\<open>Number(limit)\<close> and \<^verbatim>\<open>Number(page)\<close>, with 5 and 1 for an
  absent parameter. The handler returns its response and the number of queries it has
  sent to the store.
\<close>

definition get_comments ::
    "comment list \<Rightarrow> string \<Rightarrow> string option \<Rightarrow> string option \<Rightarrow> number \<Rightarrow> number
       \<Rightarrow> (failure + comment list) \<times> nat" where
  "get_comments cs article_id sort_by parent pageAsNumber limitAsNumber =
     (if isNaN limitAsNumber
      then (Inl (500, ''Invalid request: limit must be a number''), 0)
      else if isNaN pageAsNumber
      then (Inl (500, ''Invalid request: page must be a number''), 0)
      else if js_lt pageAsNumber (Fin 1)
      then (Inl (500, ''Invalid request: page must be greater than 1''), 0)
      else if js_ne (js_mod pageAsNumber (Fin 1)) (Fin 0)
      then (Inl (500, ''Invalid request: page must be a whole number''), 0)
      else
       (let sort = resolve_sort sort_by;
            skipCount = js_mul (js_sub pageAsNumber (Fin 1)) limitAsNumber
        in case find_comments cs article_id parent sort skipCount limitAsNumber of
             Inl err \<Rightarrow> (Inl (500, err), 1)
           | Inr result \<Rightarrow> (Inr result, 1)))"

text \<open>
  \<^verbatim>\<open>GET /replyke-comments\<close> (\<^verbatim>\<open>routers/articles.ts\<close>, lines 277-330): the two
  tests of the page are one, and every error is answered with \<^verbatim>\<open>Server error\<close>.
\<close>

definition get_replyke_comments ::
    "comment list \<Rightarrow> string \<Rightarrow> string option \<Rightarrow> string option \<Rightarrow> number \<Rightarrow> number
       \<Rightarrow> (failure + comment list) \<times> nat" where
  "get_replyke_comments cs article_id sort_by parent pageAsNumber limitAsNumber =
     (if isNaN limitAsNumber
      then (Inl (500, ''Server error''), 0)
      else if isNaN pageAsNumber
      then (Inl (500, ''Server error''), 0)
      else if js_lt pageAsNumber (Fin 1) \<or> js_ne (js_mod pageAsNumber (Fin 1)) (Fin 0)
      then (Inl (500, ''Server error''), 0)
      else
       (let sort = resolve_sort sort_by;
            skipCount = js_mul (js_sub pageAsNumber (Fin 1)) limitAsNumber
        in case find_comments cs article_id parent sort skipCount limitAsNumber of
             Inl err \<Rightarrow> (Inl (500, ''Server error''), 1)
           | Inr result \<Rightarrow> (Inr result, 1)))"

section \<open>Notions for the proofs\<close>

text \<open>
  Notions the proofs about the recursion are stated with: the subtrees of a list of
  keys, a key whose comment has no parent in the collection, the number of comments of
  a set that pass a test, and the state the recursion leaves when it removes a set.
\<close>

definition below :: "comment list \<Rightarrow> string list \<Rightarrow> comment set" where
  "below cs ks = (\<Union>k\<in>set ks. descendants cs k)"

definition is_root :: "comment list \<Rightarrow> string \<Rightarrow> bool" where
  "is_root cs k = (\<forall>c\<in>set cs. c_id c = k \<longrightarrow> (\<forall>p. c_parent c = Some p \<longrightarrow> p \<notin> c_id ` set cs))"

definition tally :: "comment set \<Rightarrow> (comment \<Rightarrow> bool) \<Rightarrow> comment list \<Rightarrow> int" where
  "tally D Q cs = int (length (filter (\<lambda>c. c \<in> D \<and> Q c) cs))"

definition after :: "del_state \<Rightarrow> comment set \<Rightarrow> del_state" where
  "after st D =
     (filter (\<lambda>c. c \<notin> D) (fst st),
      fst (snd st) + tally D (\<lambda>c. \<not> truthy (c_parent c)) (fst st),
      snd (snd st) + tally D (\<lambda>c. truthy (c_parent c)) (fst st))"

text \<open>
  The comments of an old collection whose key is gone from the new one; the combined
  update of the article's two counters; and the update of the parent of the target,
  as the two \<^verbatim>\<open>DELETE\<close> handlers make them.
\<close>

definition gone :: "comment list \<Rightarrow> comment list \<Rightarrow> comment list" where
  "gone cs cs' = filter (\<lambda>c. c_id c \<notin> c_id ` set cs') cs"

definition lower_counters :: "int \<Rightarrow> int \<Rightarrow> article \<Rightarrow> article" where
  "lower_counters n m a =
     a\<lparr>a_comments_count := a_comments_count a - n, a_replies_count := a_replies_count a - m\<rparr>"

definition lower_parent :: "comment \<Rightarrow> comment list \<Rightarrow> comment list" where
  "lower_parent t cs =
     (case c_parent t of
        None \<Rightarrow> cs
      | Some p \<Rightarrow>
          if truthy (Some p)
          then findByIdAndUpdate cs p (\<lambda>c. c\<lparr>c_replies_count := c_replies_count c - 1\<rparr>)
          else cs)"

text \<open>
  The comment a \<^verbatim>\<open>POST\<close> handler builds, the article it creates when there is none, and
  the update of an article that counts a new comment: \<open>replies_count\<close> for a comment
  with a parent, \<open>comments_count\<close> for one without.
\<close>

definition new_comment ::
    "string \<Rightarrow> string \<Rightarrow> string option \<Rightarrow> author option \<Rightarrow> string \<Rightarrow> int \<Rightarrow> comment" where
  "new_comment article_id comment_body parent author new_id now =
     \<lparr>c_id = new_id, c_article_id = article_id, c_body = comment_body, c_parent = parent,
      c_likes = [], c_likes_count = 0, c_replies_count = 0, c_created_at = now,
      c_author = author\<rparr>"

definition new_article :: "string \<Rightarrow> article" where
  "new_article article_id =
     \<lparr>a_article_id = article_id, a_likes = [], a_likes_count = 0, a_comments_count = 1,
      a_replies_count = 0\<rparr>"

definition count_comment :: "string option \<Rightarrow> article \<Rightarrow> article" where
  "count_comment parent a =
     (if truthy parent then a\<lparr>a_replies_count := a_replies_count a + 1\<rparr>
      else a\<lparr>a_comments_count := a_comments_count a + 1\<rparr>)"

text \<open>
  The words of the listing contract: a page number that is whole; the order asked for by
  \<^verbatim>\<open>sort_by\<close> (\<^verbatim>\<open>popular\<close>: \<open>likes_count\<close> descending, then \<open>created_at\<close>
  descending; \<^verbatim>\<open>newest\<close> and \<^verbatim>\<open>oldest\<close>: \<open>created_at\<close> descending and ascending;
  anything else: no order); and the list the store ranks the matching comments in.
\<close>

definition whole :: "number \<Rightarrow> bool" where
  "whole n = (case n of Fin q \<Rightarrow> of_int \<lfloor>q\<rfloor> = q | _ \<Rightarrow> False)"

definition in_order :: "string option \<Rightarrow> comment \<Rightarrow> comment \<Rightarrow> bool" where
  "in_order sort_by a b =
     (if sort_by = Some ''popular''
      then c_likes_count b < c_likes_count a \<or>
           (c_likes_count a = c_likes_count b \<and> c_created_at b \<le> c_created_at a)
      else if sort_by = Some ''newest'' then c_created_at b \<le> c_created_at a
      else if sort_by = Some ''oldest'' then c_created_at a \<le> c_created_at b
      else True)"

definition ranked :: "string option \<Rightarrow> comment list \<Rightarrow> comment list" where
  "ranked sort_by xs = sort_key (sort_key_of (resolve_sort sort_by)) xs"

section \<open>An example store\<close>

text \<open>
  One article with a thread of four comments (\<open>c1\<close> with the replies \<open>c2\<close> and
  \<open>c3\<close>, and \<open>c4\<close> a reply to \<open>c2\<close>) and a second top-level comment \<open>c5\<close>.
\<close>

definition ex_comment :: "string \<Rightarrow> string option \<Rightarrow> int \<Rightarrow> string list \<Rightarrow> int \<Rightarrow> comment" where
  "ex_comment i p n ls t =
     \<lparr>c_id = i, c_article_id = ''a1'', c_body = ''text'', c_parent = p, c_likes = ls,
      c_likes_count = int (length ls), c_replies_count = n, c_created_at = t,
      c_author = None\<rparr>"

definition ex_comments :: "comment list" where
  "ex_comments =
     [ex_comment ''c1'' None 2 [''u1''] 10,
      ex_comment ''c2'' (Some ''c1'') 1 [] 20,
      ex_comment ''c3'' (Some ''c1'') 0 [''u1'', ''u2''] 30,
      ex_comment ''c4'' (Some ''c2'') 0 [] 40,
      ex_comment ''c5'' None 0 [] 50]"

definition ex_articles :: "article list" where
  "ex_articles =
     [\<lparr>a_article_id = ''a1'', a_likes = [''u1''], a_likes_count = 1,
       a_comments_count = 2, a_replies_count = 3\<rparr>]"

definition ex_store :: store where
  "ex_store = (ex_comments, ex_articles)"

text \<open>Twelve top-level comments of one article, created at twelve different times.\<close>

definition ex_twelve :: "comment list" where
  "ex_twelve =
     [ex_comment ''n03'' None 0 [] 3, ex_comment ''n11'' None 0 [] 11,
      ex_comment ''n07'' None 0 [] 7, ex_comment ''n01'' None 0 [] 1,
      ex_comment ''n09'' None 0 [] 9, ex_comment ''n05'' None 0 [] 5,
      ex_comment ''n12'' None 0 [] 12, ex_comment ''n02'' None 0 [] 2,
      ex_comment ''n10'' None 0 [] 10, ex_comment ''n04'' None 0 [] 4,
      ex_comment ''n08'' None 0 [] 8, ex_comment ''n06'' None 0 [] 6]"

section \<open>Facts about the store operations\<close>

lemma find_update_first:
  "(\<And>x. P (f x) = P x) \<Longrightarrow> find P (update_first P f xs) = map_option f (find P xs)"
  by (induction xs) auto

lemma update_first_id:
  "find P xs = Some c \<Longrightarrow> f c = c \<Longrightarrow> update_first P f xs = xs"
  by (induction xs) (auto split: if_splits)

lemma update_first_comp:
  "(\<And>x. P (f x) = P x) \<Longrightarrow>
   update_first P g (update_first P f xs) = update_first P (\<lambda>x. g (f x)) xs"
  by (induction xs) auto

lemma find_append_new:
  "find P xs = None \<Longrightarrow> P y \<Longrightarrow> find P (xs @ [y]) = Some y"
  by (induction xs) (auto split: if_splits)

lemma filter_neq_id: "u \<notin> set xs \<Longrightarrow> filter (\<lambda>l. l \<noteq> u) xs = xs"
  by (induction xs) auto

section \<open>Likes: the guard and the round trip\<close>

text \<open>
  C4. Liking an entity (a comment, an article) whose \<open>likes\<close> already hold the user
  fails with 406 (already liked) and leaves the store as it was. In particular a second
  like in a row fails so and changes nothing: after a successful like of a comment, and
  after any like of an article (which creates the article when it is missing).
\<close>

theorem like_already_liked:
  "(\<forall>c. findById (fst st) comment_id = Some c \<and> user_id \<in> set (c_likes c) \<longrightarrow>
        post_comments_like st comment_id user_id =
          (Inl (406, ''Can't like - user already liked comment''), st)) \<and>
   (\<forall>a. findOne (snd st) article_id = Some a \<and> user_id \<in> set (a_likes a) \<longrightarrow>
        post_replyke_articles_like st article_id user_id =
          (Inl (406, ''User already liked article''), st)) \<and>
   (\<forall>r st1. post_comments_like st comment_id user_id = (Inr r, st1) \<longrightarrow>
        post_comments_like st1 comment_id user_id =
          (Inl (406, ''Can't like - user already liked comment''), st1)) \<and>
   (\<forall>r st1. post_replyke_articles_like st article_id user_id = (r, st1) \<longrightarrow>
        post_replyke_articles_like st1 article_id user_id =
          (Inl (406, ''User already liked article''), st1))"
proof (intro conjI allI impI)
  fix c
  assume "findById (fst st) comment_id = Some c \<and> user_id \<in> set (c_likes c)"
  then show "post_comments_like st comment_id user_id =
          (Inl (406, ''Can't like - user already liked comment''), st)"
    by (simp add: post_comments_like_def)
next
  fix a
  assume "findOne (snd st) article_id = Some a \<and> user_id \<in> set (a_likes a)"
  then show "post_replyke_articles_like st article_id user_id =
          (Inl (406, ''User already liked article''), st)"
    by (simp add: post_replyke_articles_like_def)
next
  fix r st1
  assume a: "post_comments_like st comment_id user_id = (Inr r, st1)"
  then obtain c where c: "findById (fst st) comment_id = Some c"
    and nl: "user_id \<notin> set (c_likes c)"
    and st1: "st1 = (findByIdAndUpdate (fst st) comment_id
                   (\<lambda>c. c\<lparr>c_likes_count := c_likes_count c + 1,
                           c_likes := c_likes c @ [user_id]\<rparr>), snd st)"
    by (auto simp: post_comments_like_def split: option.splits if_splits)
  have "findById (fst st1) comment_id =
          Some (c\<lparr>c_likes_count := c_likes_count c + 1, c_likes := c_likes c @ [user_id]\<rparr>)"
    using c unfolding st1 findById_def findByIdAndUpdate_def
    by (simp add: find_update_first)
  then show "post_comments_like st1 comment_id user_id =
          (Inl (406, ''Can't like - user already liked comment''), st1)"
    by (simp add: post_comments_like_def)
next
  fix r st1
  assume a: "post_replyke_articles_like st article_id user_id = (r, st1)"
  show "post_replyke_articles_like st1 article_id user_id =
          (Inl (406, ''User already liked article''), st1)"
  proof (cases "findOne (snd st) article_id")
    case None
    with a have st1: "st1 = (fst st, snd st @ [\<lparr>a_article_id = article_id, a_likes = [user_id],
                              a_likes_count = 1, a_comments_count = 0, a_replies_count = 0\<rparr>])"
      by (auto simp: post_replyke_articles_like_def Let_def)
    have "findOne (snd st1) article_id = Some \<lparr>a_article_id = article_id, a_likes = [user_id],
                              a_likes_count = 1, a_comments_count = 0, a_replies_count = 0\<rparr>"
      using None unfolding st1 findOne_def by (simp add: find_append_new)
    then show ?thesis by (simp add: post_replyke_articles_like_def)
  next
    case (Some art)
    show ?thesis
    proof (cases "user_id \<in> set (a_likes art)")
      case True
      with Some a have "st1 = st" by (auto simp: post_replyke_articles_like_def)
      with Some True show ?thesis by (simp add: post_replyke_articles_like_def)
    next
      case False
      with Some a have st1: "st1 = (fst st, findOneAndUpdate (snd st) article_id
                   (\<lambda>a. a\<lparr>a_likes_count := a_likes_count a + 1,
                           a_likes := a_likes a @ [user_id]\<rparr>))"
        by (auto simp: post_replyke_articles_like_def)
      have "findOne (snd st1) article_id =
          Some (art\<lparr>a_likes_count := a_likes_count art + 1, a_likes := a_likes art @ [user_id]\<rparr>)"
        using Some unfolding st1 findOne_def findOneAndUpdate_def
        by (simp add: find_update_first)
      then show ?thesis by (simp add: post_replyke_articles_like_def)
    qed
  qed
qed

theorem like_already_liked_witness:
  "findById (fst ex_store) ''c1'' = Some (hd ex_comments) \<and>
   ''u1'' \<in> set (c_likes (hd ex_comments)) \<and>
   post_comments_like ex_store ''c1'' ''u1'' =
     (Inl (406, ''Can't like - user already liked comment''), ex_store) \<and>
   findOne (snd ex_store) ''a1'' = Some (hd ex_articles) \<and>
   ''u1'' \<in> set (a_likes (hd ex_articles)) \<and>
   post_replyke_articles_like ex_store ''a1'' ''u1'' =
     (Inl (406, ''User already liked article''), ex_store) \<and>
   fst (post_comments_like ex_store ''c2'' ''u2'') =
     Inr ((ex_comments ! 1)\<lparr>c_likes_count := 1, c_likes := [''u2'']\<rparr>) \<and>
   post_comments_like (snd (post_comments_like ex_store ''c2'' ''u2'')) ''c2'' ''u2'' =
     (Inl (406, ''Can't like - user already liked comment''),
      snd (post_comments_like ex_store ''c2'' ''u2'')) \<and>
   post_replyke_articles_like (snd (post_replyke_articles_like ex_store ''a2'' ''u2''))
       ''a2'' ''u2'' =
     (Inl (406, ''User already liked article''),
      snd (post_replyke_articles_like ex_store ''a2'' ''u2''))"
proof -
  have c: "findById (fst ex_store) ''c1'' = Some (hd ex_comments)"
    by (simp add: ex_store_def ex_comments_def findById_def ex_comment_def)
  have cl: "''u1'' \<in> set (c_likes (hd ex_comments))"
    by (simp add: ex_comments_def ex_comment_def)
  have a: "findOne (snd ex_store) ''a1'' = Some (hd ex_articles)"
    by (simp add: ex_store_def ex_articles_def findOne_def)
  have al: "''u1'' \<in> set (a_likes (hd ex_articles))"
    by (simp add: ex_articles_def)
  have l: "fst (post_comments_like ex_store ''c2'' ''u2'') =
      Inr ((ex_comments ! 1)\<lparr>c_likes_count := 1, c_likes := [''u2'']\<rparr>)"
    by (simp add: post_comments_like_def ex_store_def ex_comments_def findById_def
          ex_comment_def)
  then have l': "post_comments_like ex_store ''c2'' ''u2'' =
      (Inr ((ex_comments ! 1)\<lparr>c_likes_count := 1, c_likes := [''u2'']\<rparr>),
       snd (post_comments_like ex_store ''c2'' ''u2''))"
    by (metis prod.collapse)
  have m: "post_replyke_articles_like ex_store ''a2'' ''u2'' =
      (fst (post_replyke_articles_like ex_store ''a2'' ''u2''),
       snd (post_replyke_articles_like ex_store ''a2'' ''u2''))"
    by simp
  note t1 = like_already_liked [of ex_store "''c1''" "''u1''" "''a1''"]
  note t2 = like_already_liked [of ex_store "''c2''" "''u2''" "''a2''"]
  from t1 c cl have r1: "post_comments_like ex_store ''c1'' ''u1'' =
     (Inl (406, ''Can't like - user already liked comment''), ex_store)"
    by blast
  from t1 a al have r2: "post_replyke_articles_like ex_store ''a1'' ''u1'' =
     (Inl (406, ''User already liked article''), ex_store)"
    by blast
  from t2 l' have r3: "post_comments_like (snd (post_comments_like ex_store ''c2'' ''u2''))
       ''c2'' ''u2'' =
     (Inl (406, ''Can't like - user already liked comment''),
      snd (post_comments_like ex_store ''c2'' ''u2''))"
    by blast
  from t2 m have r4: "post_replyke_articles_like
       (snd (post_replyke_articles_like ex_store ''a2'' ''u2'')) ''a2'' ''u2'' =
     (Inl (406, ''User already liked article''),
      snd (post_replyke_articles_like ex_store ''a2'' ''u2''))"
    by blast
  from c cl a al l r1 r2 r3 r4 show ?thesis by blast
qed

text \<open>
  C5. For an entity that exists and a user who is not in its \<open>likes\<close>, a like followed
  by an unlike both succeed and leave the store, hence \<open>likes\<close> and \<open>likes_count\<close>, exactly
  as before the like; the unlike sends the entity back as it was.
\<close>

theorem like_unlike_roundtrip:
  "(findById (fst st) comment_id = Some c \<and> user_id \<notin> set (c_likes c) \<longrightarrow>
      fst (post_comments_like st comment_id user_id) =
        Inr (c\<lparr>c_likes_count := c_likes_count c + 1, c_likes := c_likes c @ [user_id]\<rparr>) \<and>
      post_comments_unlike (snd (post_comments_like st comment_id user_id)) comment_id user_id =
        (Inr c, st)) \<and>
   (findOne (snd st) article_id = Some a \<and> user_id \<notin> set (a_likes a) \<longrightarrow>
      fst (post_replyke_articles_like st article_id user_id) =
        Inr (a\<lparr>a_likes_count := a_likes_count a + 1, a_likes := a_likes a @ [user_id]\<rparr>) \<and>
      post_replyke_articles_unlike (snd (post_replyke_articles_like st article_id user_id))
          article_id user_id =
        (Inr a, st))"
proof (intro conjI impI)
  assume h: "findById (fst st) comment_id = Some c \<and> user_id \<notin> set (c_likes c)"
  then show "fst (post_comments_like st comment_id user_id) =
        Inr (c\<lparr>c_likes_count := c_likes_count c + 1, c_likes := c_likes c @ [user_id]\<rparr>)"
    by (simp add: post_comments_like_def)
  let ?f = "\<lambda>c. c\<lparr>c_likes_count := c_likes_count c + 1, c_likes := c_likes c @ [user_id]\<rparr>"
  let ?g = "\<lambda>c. c\<lparr>c_likes_count := c_likes_count c - 1,
                     c_likes := filter (\<lambda>l. l \<noteq> user_id) (c_likes c)\<rparr>"
  have s1: "snd (post_comments_like st comment_id user_id) =
      (findByIdAndUpdate (fst st) comment_id ?f, snd st)"
    using h by (simp add: post_comments_like_def)
  have f1: "findById (findByIdAndUpdate (fst st) comment_id ?f) comment_id = Some (?f c)"
    using h unfolding findById_def findByIdAndUpdate_def by (simp add: find_update_first)
  have gf: "?g (?f c) = c" using h by (simp add: filter_neq_id)
  have "findByIdAndUpdate (findByIdAndUpdate (fst st) comment_id ?f) comment_id ?g = fst st"
    unfolding findByIdAndUpdate_def
    using h gf by (simp add: update_first_comp update_first_id[where c = c] findById_def)
  then show "post_comments_unlike (snd (post_comments_like st comment_id user_id)) comment_id user_id =
        (Inr c, st)"
    using f1 h by (simp add: s1 post_comments_unlike_def filter_neq_id)
next
  assume h: "findOne (snd st) article_id = Some a \<and> user_id \<notin> set (a_likes a)"
  then show "fst (post_replyke_articles_like st article_id user_id) =
        Inr (a\<lparr>a_likes_count := a_likes_count a + 1, a_likes := a_likes a @ [user_id]\<rparr>)"
    by (simp add: post_replyke_articles_like_def)
  let ?f = "\<lambda>a. a\<lparr>a_likes_count := a_likes_count a + 1, a_likes := a_likes a @ [user_id]\<rparr>"
  let ?g = "\<lambda>a. a\<lparr>a_likes_count := a_likes_count a - 1,
                     a_likes := filter (\<lambda>l. l \<noteq> user_id) (a_likes a)\<rparr>"
  have s1: "snd (post_replyke_articles_like st article_id user_id) =
      (fst st, findOneAndUpdate (snd st) article_id ?f)"
    using h by (simp add: post_replyke_articles_like_def)
  have f1: "findOne (findOneAndUpdate (snd st) article_id ?f) article_id = Some (?f a)"
    using h unfolding findOne_def findOneAndUpdate_def by (simp add: find_update_first)
  have gf: "?g (?f a) = a" using h by (simp add: filter_neq_id)
  have "findOneAndUpdate (findOneAndUpdate (snd st) article_id ?f) article_id ?g = snd st"
    unfolding findOneAndUpdate_def
    using h gf by (simp add: update_first_comp update_first_id[where c = a] findOne_def)
  then show "post_replyke_articles_unlike (snd (post_replyke_articles_like st article_id user_id))
          article_id user_id = (Inr a, st)"
    using f1 h by (simp add: s1 post_replyke_articles_unlike_def filter_neq_id)
qed

theorem like_unlike_roundtrip_witness:
  "findById (fst ex_store) ''c2'' = Some (ex_comment ''c2'' (Some ''c1'') 1 [] 20) \<and>
   ''u2'' \<notin> set (c_likes (ex_comment ''c2'' (Some ''c1'') 1 [] 20)) \<and>
   post_comments_unlike (snd (post_comments_like ex_store ''c2'' ''u2'')) ''c2'' ''u2'' =
     (Inr (ex_comment ''c2'' (Some ''c1'') 1 [] 20), ex_store) \<and>
   findOne (snd ex_store) ''a1'' = Some (hd ex_articles) \<and>
   ''u2'' \<notin> set (a_likes (hd ex_articles)) \<and>
   post_replyke_articles_unlike (snd (post_replyke_articles_like ex_store ''a1'' ''u2''))
       ''a1'' ''u2'' =
     (Inr (hd ex_articles), ex_store)"
proof -
  have c: "findById (fst ex_store) ''c2'' = Some (ex_comment ''c2'' (Some ''c1'') 1 [] 20)"
    by (simp add: ex_store_def ex_comments_def findById_def ex_comment_def)
  have cl: "''u2'' \<notin> set (c_likes (ex_comment ''c2'' (Some ''c1'') 1 [] 20))"
    by (simp add: ex_comment_def)
  have a: "findOne (snd ex_store) ''a1'' = Some (hd ex_articles)"
    by (simp add: ex_store_def ex_articles_def findOne_def)
  have al: "''u2'' \<notin> set (a_likes (hd ex_articles))"
    by (simp add: ex_articles_def)
  show ?thesis
    using like_unlike_roundtrip [of ex_store "''c2''" "ex_comment ''c2'' (Some ''c1'') 1 [] 20"
        "''u2''" "''a1''" "hd ex_articles"] c cl a al
    by blast
qed

section \<open>The recursion removes exactly the subtree\<close>

lemma descendants_in_store: "c \<in> descendants cs i \<Longrightarrow> c \<in> set cs"
  by (erule descendants.cases) auto

lemma descendants_mono:
  assumes "set cs' \<subseteq> set cs" and "c \<in> descendants cs' i"
  shows "c \<in> descendants cs i"
  using assms(2)
proof (induction rule: descendants.induct)
  case (target c)
  then show ?case using assms(1) by (auto intro: descendants.target)
next
  case (reply p c)
  then show ?case using assms(1) by (auto intro: descendants.reply)
qed

lemma distinct_ids_eq:
  "distinct (map c_id cs) \<Longrightarrow> x \<in> set cs \<Longrightarrow> y \<in> set cs \<Longrightarrow> c_id x = c_id y \<Longrightarrow> x = y"
  by (meson distinct_map inj_onD)

lemma find_by_id:
  "i \<in> c_id ` set cs \<Longrightarrow> \<exists>c. find (\<lambda>c. c_id c = i) cs = Some c \<and> c \<in> set cs \<and> c_id c = i"
  by (induction cs) auto

lemma find_Some_mem: "find P xs = Some x \<Longrightarrow> x \<in> set xs \<and> P x"
  by (induction xs) (auto split: if_splits)

lemma delete_first_filter:
  "distinct (map c_id cs) \<Longrightarrow> delete_first (\<lambda>c. c_id c = i) cs = filter (\<lambda>x. c_id x \<noteq> i) cs"
proof (induction cs)
  case Nil
  then show ?case by simp
next
  case (Cons a cs)
  from Cons.prems have "c_id a \<notin> c_id ` set cs" by simp
  then have "\<forall>x\<in>set cs. c_id x \<noteq> c_id a" by (metis imageI)
  then have "filter (\<lambda>x. c_id x \<noteq> c_id a) cs = cs"
    by (simp add: filter_id_conv)
  with Cons show ?case by auto
qed

lemma filter_id_is_filter_neq:
  assumes "distinct (map c_id cs)" "c \<in> set cs"
  shows "filter (\<lambda>x. c_id x \<noteq> c_id c) cs = filter (\<lambda>x. x \<notin> {c}) cs"
  using assms by (intro filter_cong) (auto dest: distinct_ids_eq)

lemma subtree_split:
  assumes d: "distinct (map c_id cs)" and c: "c \<in> set cs"
  defines "cs0 \<equiv> filter (\<lambda>x. c_id x \<noteq> c_id c) cs"
  shows "descendants cs (c_id c) =
           insert c (below cs0 (map c_id (filter (\<lambda>x. c_parent x = Some (c_id c)) cs0)))"
proof (intro set_eqI iffI)
  fix x
  assume "x \<in> descendants cs (c_id c)"
  then show "x \<in> insert c (below cs0 (map c_id (filter (\<lambda>x. c_parent x = Some (c_id c)) cs0)))"
  proof (induction rule: descendants.induct)
    case (target x)
    then show ?case using d c by (auto dest: distinct_ids_eq)
  next
    case (reply p x)
    show ?case
    proof (cases "x = c")
      case True
      then show ?thesis by simp
    next
      case False
      with reply d c have x0: "x \<in> set cs0"
        by (auto simp: cs0_def dest: distinct_ids_eq)
      from reply.IH show ?thesis
      proof
        assume "p = c"
        with reply x0 have "x \<in> descendants cs0 (c_id x)"
          and "c_id x \<in> set (map c_id (filter (\<lambda>x. c_parent x = Some (c_id c)) cs0))"
          by (auto intro: descendants.target)
        then show ?thesis unfolding below_def by blast
      next
        assume "p \<in> below cs0 (map c_id (filter (\<lambda>x. c_parent x = Some (c_id c)) cs0))"
        then obtain k where k: "k \<in> set (map c_id (filter (\<lambda>x. c_parent x = Some (c_id c)) cs0))"
          and pk: "p \<in> descendants cs0 k"
          unfolding below_def by blast
        from pk x0 reply(3) have "x \<in> descendants cs0 k" by (rule descendants.reply)
        with k show ?thesis unfolding below_def by blast
      qed
    qed
  qed
next
  fix x
  assume "x \<in> insert c (below cs0 (map c_id (filter (\<lambda>x. c_parent x = Some (c_id c)) cs0)))"
  then show "x \<in> descendants cs (c_id c)"
  proof
    assume "x = c"
    with c show ?thesis by (auto intro: descendants.target)
  next
    assume "x \<in> below cs0 (map c_id (filter (\<lambda>x. c_parent x = Some (c_id c)) cs0))"
    then obtain y where y: "y \<in> set cs0" "c_parent y = Some (c_id c)"
      and xy: "x \<in> descendants cs0 (c_id y)"
      unfolding below_def by auto
    have sub: "set cs0 \<subseteq> set cs" by (auto simp: cs0_def)
    from xy show ?thesis
    proof (induction rule: descendants.induct)
      case (target z)
      with y d sub have "z = y"
        by (meson distinct_ids_eq subsetD)
      with y sub c show ?case
        by (auto intro: descendants.reply[OF descendants.target[OF c refl]])
    next
      case (reply p z)
      with sub show ?case by (auto intro: descendants.reply)
    qed
  qed
qed

lemma roots_disjoint:
  assumes d: "distinct (map c_id cs)" and r: "is_root cs k" and r': "is_root cs k'"
    and x: "x \<in> descendants cs k" and x': "x \<in> descendants cs k'"
  shows "k = k'"
  using x x'
proof (induction arbitrary: rule: descendants.induct)
  case (target c)
  from target(3) show ?case
  proof (cases rule: descendants.cases)
    case target
    with \<open>c_id c = k\<close> show ?thesis by simp
  next
    case (reply p)
    then have "p \<in> set cs" by (auto dest: descendants_in_store)
    with reply r target show ?thesis by (auto simp: is_root_def)
  qed
next
  case (reply p c)
  from reply(5) show ?case
  proof (cases rule: descendants.cases)
    case target
    from reply(1) have "p \<in> set cs" by (rule descendants_in_store)
    with target r' reply show ?thesis by (auto simp: is_root_def)
  next
    case (reply p')
    have "p \<in> set cs" "p' \<in> set cs"
      using reply \<open>p \<in> descendants cs k\<close> by (auto dest: descendants_in_store)
    moreover have "c_id p = c_id p'" using reply \<open>c_parent c = Some (c_id p)\<close> by simp
    ultimately have "p = p'" using d by (auto dest: distinct_ids_eq)
    with reply \<open>p \<in> descendants cs k' \<Longrightarrow> k = k'\<close> show ?thesis by simp
  qed
qed

lemma descendants_after_removal:
  assumes d: "distinct (map c_id cs)" and r: "is_root cs k" and r': "is_root cs k'"
    and ne: "k \<noteq> k'"
  shows "descendants (filter (\<lambda>c. c \<notin> descendants cs k) cs) k' = descendants cs k'"
proof (intro set_eqI iffI)
  fix x
  assume "x \<in> descendants (filter (\<lambda>c. c \<notin> descendants cs k) cs) k'"
  then show "x \<in> descendants cs k'"
    by (rule descendants_mono[rotated]) auto
next
  fix x
  assume "x \<in> descendants cs k'"
  then show "x \<in> descendants (filter (\<lambda>c. c \<notin> descendants cs k) cs) k'"
  proof (induction rule: descendants.induct)
    case (target c)
    then have "c \<in> descendants cs k'" by (auto intro: descendants.target)
    with roots_disjoint[OF d r r'] ne have "c \<notin> descendants cs k" by blast
    with target show ?case by (auto intro: descendants.target)
  next
    case (reply p c)
    then have "c \<in> descendants cs k'" by (auto intro: descendants.reply)
    with roots_disjoint[OF d r r'] ne have "c \<notin> descendants cs k" by blast
    with reply show ?case by (auto intro: descendants.reply)
  qed
qed

lemma tally_union:
  "D1 \<inter> D2 = {} \<Longrightarrow> tally (D1 \<union> D2) Q cs = tally D1 Q cs + tally D2 Q cs"
  unfolding tally_def by (induction cs) auto

lemma tally_filter:
  "D1 \<inter> D2 = {} \<Longrightarrow> tally D2 Q (filter (\<lambda>c. c \<notin> D1) cs) = tally D2 Q cs"
  unfolding tally_def by (induction cs) auto

lemma tally_single:
  "distinct cs \<Longrightarrow> c \<in> set cs \<Longrightarrow> tally {c} Q cs = (if Q c then 1 else 0)"
  unfolding tally_def by (induction cs) (auto simp: filter_empty_conv)

lemma below_Nil: "below cs [] = {}"
  by (simp add: below_def)

lemma below_Cons: "below cs (k # ks) = descendants cs k \<union> below cs ks"
  by (simp add: below_def)

lemma after_empty: "after st {} = st"
  by (simp add: after_def tally_def)

lemma is_root_filter: "is_root cs k \<Longrightarrow> is_root (filter P cs) k"
  by (auto simp: is_root_def)

lemma deleteCommentAndChildren_subtree:
  "distinct (map c_id (fst st)) \<Longrightarrow> i \<in> c_id ` set (fst st) \<Longrightarrow>
     deleteCommentAndChildren st i = Inr (after st (descendants (fst st) i))"
  "distinct (map c_id (fst st)) \<Longrightarrow> distinct ks \<Longrightarrow> set ks \<subseteq> c_id ` set (fst st) \<Longrightarrow>
     (\<forall>k\<in>set ks. is_root (fst st) k) \<Longrightarrow>
     deleteChildren st ks = Inr (after st (below (fst st) ks))"
proof (induction st i and st ks rule: deleteCommentAndChildren_deleteChildren.induct)
  case (1 cs f r i)
  from 1(3) obtain c where fc: "find (\<lambda>c. c_id c = i) cs = Some c"
    and c: "c \<in> set cs" and ci: "c_id c = i"
    using find_by_id[of i cs] by auto
  from 1(2) have d: "distinct (map c_id cs)" by simp
  define cs0 where "cs0 = filter (\<lambda>x. c_id x \<noteq> i) cs"
  define kids where "kids = map c_id (filter (\<lambda>x. c_parent x = Some (c_id c)) cs0)"
  define st1 where "st1 = (if truthy (c_parent c) then (cs0, f, r + 1) else (cs0, f + 1, r))"
  have fd: "findByIdAndDelete cs i = (Some c, cs0)"
    using fc d by (simp add: findByIdAndDelete_def findById_def delete_first_filter cs0_def)
  have fst1: "fst st1 = cs0" by (simp add: st1_def)
  have d0: "distinct (map c_id cs0)"
    using d by (simp add: cs0_def distinct_map_filter)
  have dk: "distinct kids"
    using d0 by (simp add: kids_def distinct_map_filter)
  have sk: "set kids \<subseteq> c_id ` set cs0"
    by (auto simp: kids_def)
  have i0: "i \<notin> c_id ` set cs0"
    by (auto simp: cs0_def)
  have rk: "\<forall>k\<in>set kids. is_root cs0 k"
  proof
    fix k assume "k \<in> set kids"
    then obtain y where y: "y \<in> set cs0" "c_parent y = Some i" "c_id y = k"
      by (auto simp: kids_def ci)
    show "is_root cs0 k"
      unfolding is_root_def
    proof (intro ballI impI allI)
      fix x p assume "x \<in> set cs0" "c_id x = k" "c_parent x = Some p"
      with y d0 have "x = y" by (auto dest: distinct_ids_eq)
      with y \<open>c_parent x = Some p\<close> i0 show "p \<notin> c_id ` set cs0" by simp
    qed
  qed
  have ih: "deleteChildren st1 kids = Inr (after st1 (below cs0 kids))"
    using 1(1)[OF fd[symmetric] refl] d0 dk sk rk
    unfolding st1_def[symmetric] kids_def[symmetric] fst1 by simp
  have split: "descendants cs i = insert c (below cs0 kids)"
    using subtree_split[OF d c] by (simp add: ci cs0_def kids_def)
  have sub0: "below cs0 kids \<subseteq> set cs0"
    by (auto simp: below_def dest: descendants_in_store)
  have c0: "c \<notin> set cs0" by (auto simp: cs0_def ci)
  have cnb: "c \<notin> below cs0 kids" using sub0 c0 by blast
  have cs0': "cs0 = filter (\<lambda>x. x \<notin> {c}) cs"
    using filter_id_is_filter_neq[OF d c] by (simp add: cs0_def ci)
  have dc: "distinct cs" using d by (simp add: distinct_map)
  have disj: "{c} \<inter> below cs0 kids = {}" using cnb by simp
  have t: "tally (insert c (below cs0 kids)) Q cs = (if Q c then 1 else 0) + tally (below cs0 kids) Q cs0" for Q
  proof -
    have "tally (insert c (below cs0 kids)) Q cs = tally ({c} \<union> below cs0 kids) Q cs" by simp
    also have "\<dots> = tally {c} Q cs + tally (below cs0 kids) Q cs"
      using disj by (rule tally_union)
    also have "tally (below cs0 kids) Q cs = tally (below cs0 kids) Q cs0"
      using tally_filter[OF disj, of Q cs] by (simp only: cs0'[symmetric])
    finally show ?thesis using dc c by (simp add: tally_single)
  qed
  have fl: "filter (\<lambda>x. x \<notin> below cs0 kids) cs0 = filter (\<lambda>x. x \<notin> insert c (below cs0 kids)) cs"
    unfolding cs0' by (auto intro: filter_cong)
  have "after st1 (below cs0 kids) = after (cs, f, r) (descendants cs i)"
    unfolding split by (simp add: after_def st1_def t fl)
  with ih fd show ?case
    by (simp add: st1_def kids_def)
next
  case (2 st)
  then show ?case by (simp add: below_Nil after_empty)
next
  case (3 st k rest)
  obtain cs f r where st: "st = (cs, f, r)" by (cases st)
  from 3(3) have d: "distinct (map c_id cs)" by (simp add: st)
  from 3(4) have kn: "k \<notin> set rest" and dr: "distinct rest" by auto
  from 3(5) have k: "k \<in> c_id ` set cs" and sr: "set rest \<subseteq> c_id ` set cs"
    by (auto simp: st)
  from 3(6) have rk: "is_root cs k" and rr: "\<forall>k'\<in>set rest. is_root cs k'"
    by (auto simp: st)
  define Dk where "Dk = descendants cs k"
  define b where "b = after st Dk"
  have b: "deleteCommentAndChildren st k = Inr b"
    using 3(1) d k by (simp add: st b_def Dk_def)
  have fb: "fst b = filter (\<lambda>c. c \<notin> Dk) cs" by (simp add: b_def after_def st)
  have db: "distinct (map c_id (fst b))"
    using d by (simp add: fb distinct_map_filter)
  have sb: "set rest \<subseteq> c_id ` set (fst b)"
  proof
    fix k' assume k': "k' \<in> set rest"
    with sr obtain x where x: "x \<in> set cs" "c_id x = k'" by auto
    then have "x \<in> descendants cs k'" by (auto intro: descendants.target)
    moreover have "k \<noteq> k'" using k' kn by auto
    ultimately have "x \<notin> Dk"
      using roots_disjoint[OF d rk] rr k' unfolding Dk_def by blast
    with x show "k' \<in> c_id ` set (fst b)" by (auto simp: fb)
  qed
  have rb: "\<forall>k'\<in>set rest. is_root (fst b) k'"
    using rr by (simp add: fb is_root_filter)
  have ih: "deleteChildren b rest = Inr (after b (below (fst b) rest))"
    using 3(2)[OF b db dr sb rb] .
  have same: "below (fst b) rest = below cs rest"
    unfolding below_def fb Dk_def
  proof (intro SUP_cong refl)
    fix k' assume "k' \<in> set rest"
    then show "descendants (filter (\<lambda>c. c \<notin> descendants cs k) cs) k' = descendants cs k'"
      using descendants_after_removal[OF d rk] rr kn by blast
  qed
  have disj: "Dk \<inter> below cs rest = {}"
  proof (rule ccontr)
    assume "Dk \<inter> below cs rest \<noteq> {}"
    then obtain x k' where "x \<in> Dk" "k' \<in> set rest" "x \<in> descendants cs k'"
      by (auto simp: below_def)
    then have "k = k'" using roots_disjoint[OF d rk] rr unfolding Dk_def by blast
    with \<open>k' \<in> set rest\<close> kn show False by simp
  qed
  have fl: "filter (\<lambda>c. c \<notin> below cs rest) (filter (\<lambda>c. c \<notin> Dk) cs) =
            filter (\<lambda>c. c \<notin> Dk \<union> below cs rest) cs"
    by (auto intro: filter_cong)
  have "after b (below (fst b) rest) = after st (below cs (k # rest))"
    unfolding same below_Cons Dk_def[symmetric]
    by (simp add: after_def b_def st fl tally_union[OF disj] tally_filter[OF disj])
  with ih b show ?case by (simp add: st)
qed

declare deleteCommentAndChildren.simps [simp del]

lemma lower_counters_fun:
  "lower_counters n m =
     (\<lambda>a. a\<lparr>a_comments_count := a_comments_count a - n, a_replies_count := a_replies_count a - m\<rparr>)"
  by (rule ext) (simp add: lower_counters_def)

lemma map_update_first:
  "(\<And>x. g (f x) = g x) \<Longrightarrow> map g (update_first P f xs) = map g xs"
  by (induction xs) auto

lemma in_set_update_first:
  "r \<in> set (update_first P f xs) \<Longrightarrow> r \<in> set xs \<or> (\<exists>x\<in>set xs. r = f x)"
  by (induction xs) (auto split: if_splits)

lemma lower_parent_ids: "map c_id (lower_parent t cs) = map c_id cs"
  by (simp add: lower_parent_def findByIdAndUpdate_def map_update_first split: option.splits)

lemma lower_parent_mem:
  "r \<in> set (lower_parent t cs) \<Longrightarrow> \<exists>x\<in>set cs. c_id r = c_id x \<and> c_parent r = c_parent x"
  by (auto simp: lower_parent_def findByIdAndUpdate_def split: option.splits if_splits
        dest!: in_set_update_first)

lemma findById_mem: "findById cs i = Some t \<Longrightarrow> t \<in> set cs \<and> c_id t = i"
  by (auto simp: findById_def dest: find_Some_mem)

lemma delete_comments_result:
  assumes d: "distinct (map c_id cs)" and t: "findById cs i = Some t"
  shows "delete_comments (cs, as) i =
     (case findOne as (c_article_id t) of
        None \<Rightarrow>
          (Inl (500, ''No article found''),
           (lower_parent t (filter (\<lambda>c. c \<notin> descendants cs i) cs), as))
      | Some a \<Rightarrow>
          (Inr (lower_counters (tally (descendants cs i) (\<lambda>c. \<not> truthy (c_parent c)) cs)
                  (tally (descendants cs i) (\<lambda>c. truthy (c_parent c)) cs) a),
           (lower_parent t (filter (\<lambda>c. c \<notin> descendants cs i) cs),
            findOneAndUpdate as (c_article_id t)
              (lower_counters (tally (descendants cs i) (\<lambda>c. \<not> truthy (c_parent c)) cs)
                  (tally (descendants cs i) (\<lambda>c. truthy (c_parent c)) cs)))))"
proof -
  from t have "i \<in> c_id ` set cs" by (auto dest: findById_mem)
  with d have "deleteCommentAndChildren (cs, 0, 0) i = Inr (after (cs, 0, 0) (descendants cs i))"
    using deleteCommentAndChildren_subtree(1)[of "(cs, 0, 0)" i] by simp
  then show ?thesis
    using t
    by (simp add: delete_comments_def after_def lower_parent_def lower_counters_fun
          split: option.splits)
qed

lemma delete_replyke_comments_result:
  assumes d: "distinct (map c_id cs)" and t: "findById cs i = Some t" and i: "i \<noteq> []"
  shows "delete_replyke_comments (cs, as) i =
     (case findOne as (c_article_id t) of
        None \<Rightarrow>
          (Inl (500, ''Server error''),
           (lower_parent t (filter (\<lambda>c. c \<notin> descendants cs i) cs), as))
      | Some a \<Rightarrow>
          (Inr (lower_counters (tally (descendants cs i) (\<lambda>c. \<not> truthy (c_parent c)) cs)
                  (tally (descendants cs i) (\<lambda>c. truthy (c_parent c)) cs) a),
           (lower_parent t (filter (\<lambda>c. c \<notin> descendants cs i) cs),
            findOneAndUpdate as (c_article_id t)
              (lower_counters (tally (descendants cs i) (\<lambda>c. \<not> truthy (c_parent c)) cs)
                  (tally (descendants cs i) (\<lambda>c. truthy (c_parent c)) cs)))))"
proof -
  from t have "i \<in> c_id ` set cs" by (auto dest: findById_mem)
  with d have "deleteCommentAndChildren (cs, 0, 0) i = Inr (after (cs, 0, 0) (descendants cs i))"
    using deleteCommentAndChildren_subtree(1)[of "(cs, 0, 0)" i] by simp
  then show ?thesis
    using t i
    by (simp add: delete_replyke_comments_def after_def lower_parent_def lower_counters_fun
          split: option.splits)
qed

lemma comments_after_delete:
  assumes d: "distinct (map c_id cs)" and t: "findById cs i = Some t"
  shows "fst (snd (delete_comments (cs, as) i)) =
           lower_parent t (filter (\<lambda>c. c \<notin> descendants cs i) cs)"
    and "i \<noteq> [] \<Longrightarrow> fst (snd (delete_replyke_comments (cs, as) i)) =
           lower_parent t (filter (\<lambda>c. c \<notin> descendants cs i) cs)"
  by (simp_all add: delete_comments_result[OF d t] delete_replyke_comments_result[OF d t]
        split: option.splits)

lemma subtree_removed:
  assumes d: "distinct (map c_id cs)" and t: "findById cs i = Some t"
    and cs': "cs' = lower_parent t (filter (\<lambda>c. c \<notin> descendants cs i) cs)"
  shows "t \<in> descendants cs i \<and>
         map c_id cs' = map c_id (filter (\<lambda>c. c \<notin> descendants cs i) cs) \<and>
         (\<forall>x\<in>descendants cs i. c_id x \<notin> c_id ` set cs') \<and>
         (\<forall>r\<in>set cs'. \<forall>x\<in>descendants cs i. c_parent r \<noteq> Some (c_id x))"
proof (intro conjI ballI)
  show "t \<in> descendants cs i"
    using t by (auto dest: findById_mem intro: descendants.target)
  show ids: "map c_id cs' = map c_id (filter (\<lambda>c. c \<notin> descendants cs i) cs)"
    by (simp add: cs' lower_parent_ids)
  fix x assume x: "x \<in> descendants cs i"
  show "c_id x \<notin> c_id ` set cs'"
  proof
    assume "c_id x \<in> c_id ` set cs'"
    then have "c_id x \<in> set (map c_id cs')" by simp
    then obtain y where "y \<in> set cs" "y \<notin> descendants cs i" "c_id y = c_id x"
      unfolding ids by auto
    with x d show False by (auto dest: distinct_ids_eq descendants_in_store)
  qed
next
  fix r x assume r: "r \<in> set cs'" and x: "x \<in> descendants cs i"
  from r obtain y where y: "y \<in> set cs" "y \<notin> descendants cs i" "c_parent r = c_parent y"
    unfolding cs' by (auto dest!: lower_parent_mem)
  show "c_parent r \<noteq> Some (c_id x)"
  proof
    assume "c_parent r = Some (c_id x)"
    with y have "y \<in> descendants cs i" by (auto intro: descendants.reply[OF x])
    with y show False by simp
  qed
qed

lemma gone_is_subtree:
  assumes d: "distinct (map c_id cs)"
    and ids: "map c_id cs' = map c_id (filter (\<lambda>c. c \<notin> descendants cs i) cs)"
  shows "gone cs cs' = filter (\<lambda>c. c \<in> descendants cs i) cs"
  unfolding gone_def
proof (rule filter_cong[OF refl])
  fix x assume x: "x \<in> set cs"
  have "c_id ` set cs' = set (map c_id cs')" by simp
  also have "\<dots> = c_id ` {c \<in> set cs. c \<notin> descendants cs i}" unfolding ids by auto
  finally have eq: "c_id ` set cs' = c_id ` {c \<in> set cs. c \<notin> descendants cs i}" .
  show "(c_id x \<notin> c_id ` set cs') = (x \<in> descendants cs i)"
  proof
    assume "c_id x \<notin> c_id ` set cs'"
    then show "x \<in> descendants cs i" using x unfolding eq by blast
  next
    assume xd: "x \<in> descendants cs i"
    show "c_id x \<notin> c_id ` set cs'"
    proof
      assume "c_id x \<in> c_id ` set cs'"
      then obtain y where "y \<in> set cs" "y \<notin> descendants cs i" "c_id x = c_id y"
        unfolding eq by blast
      with x xd d show False by (auto dest: distinct_ids_eq)
    qed
  qed
qed

lemma tally_gone:
  assumes "gone cs cs' = filter (\<lambda>c. c \<in> D) cs"
  shows "tally D Q cs = int (length (filter Q (gone cs cs')))"
  by (simp add: assms tally_def)

lemma findOne_lowered:
  "findOne as aid = Some a \<Longrightarrow>
   findOne (findOneAndUpdate as aid (lower_counters n m)) aid = Some (lower_counters n m a)"
  unfolding findOne_def findOneAndUpdate_def
  by (simp add: find_update_first lower_counters_def)

lemma conservation:
  assumes d: "distinct (map c_id cs)" and t: "findById cs i = Some t"
    and a: "findOne as (c_article_id t) = Some a"
    and r: "res =
      (Inr (lower_counters (tally (descendants cs i) (\<lambda>c. \<not> truthy (c_parent c)) cs)
              (tally (descendants cs i) (\<lambda>c. truthy (c_parent c)) cs) a),
       (lower_parent t (filter (\<lambda>c. c \<notin> descendants cs i) cs),
        findOneAndUpdate as (c_article_id t)
          (lower_counters (tally (descendants cs i) (\<lambda>c. \<not> truthy (c_parent c)) cs)
              (tally (descendants cs i) (\<lambda>c. truthy (c_parent c)) cs))))"
  shows "\<exists>cs' n_root n_reply.
     res = (Inr (lower_counters n_root n_reply a),
            (cs', findOneAndUpdate as (c_article_id t) (lower_counters n_root n_reply))) \<and>
     set (gone cs cs') = descendants cs i \<and>
     n_root = int (length (filter (\<lambda>c. \<not> truthy (c_parent c)) (gone cs cs'))) \<and>
     n_reply = int (length (filter (\<lambda>c. truthy (c_parent c)) (gone cs cs'))) \<and>
     findOne (findOneAndUpdate as (c_article_id t) (lower_counters n_root n_reply))
       (c_article_id t) = Some (lower_counters n_root n_reply a)"
proof -
  define cs' where "cs' = lower_parent t (filter (\<lambda>c. c \<notin> descendants cs i) cs)"
  have g: "gone cs cs' = filter (\<lambda>c. c \<in> descendants cs i) cs"
    using gone_is_subtree[OF d] by (simp add: cs'_def lower_parent_ids)
  have s: "set (gone cs cs') = descendants cs i"
    unfolding g by (auto dest: descendants_in_store)
  show ?thesis
    using r s findOne_lowered[OF a]
    unfolding tally_gone[OF g] cs'_def[symmetric] by blast
qed

lemma first_level_only_target:
  assumes d: "distinct (map c_id cs)" and ne: "[] \<notin> c_id ` set cs"
    and t: "findById cs i = Some t" and x: "x \<in> descendants cs i"
    and f: "\<not> truthy (c_parent x)"
  shows "x = t"
  using x
proof (cases rule: descendants.cases)
  case target
  with t d show ?thesis by (auto dest: findById_mem distinct_ids_eq)
next
  case (reply p)
  then have "p \<in> set cs" by (auto dest: descendants_in_store)
  with ne have "c_id p \<noteq> []" by (metis imageI)
  with reply f show ?thesis by simp
qed

section \<open>Facts about the example store\<close>

lemma ex_comment_sel:
  "c_id (ex_comment i p n ls t) = i"
  "c_parent (ex_comment i p n ls t) = p"
  "c_article_id (ex_comment i p n ls t) = ''a1''"
  by (simp_all add: ex_comment_def)

lemma ex_comment_eq:
  "(ex_comment i p n ls t = ex_comment i' p' n' ls' t') =
     (i = i' \<and> p = p' \<and> n = n' \<and> ls = ls' \<and> t = t')"
  by (auto simp: ex_comment_def)

lemma ex_subtree: "descendants ex_comments ''c1'' = set (take 4 ex_comments)"
proof (intro set_eqI iffI)
  fix x assume "x \<in> descendants ex_comments ''c1''"
  then show "x \<in> set (take 4 ex_comments)"
  proof (induction rule: descendants.induct)
    case (target c)
    then show ?case by (auto simp: ex_comments_def ex_comment_sel)
  next
    case (reply p c)
    then show ?case by (auto simp: ex_comments_def ex_comment_sel)
  qed
next
  fix x assume x: "x \<in> set (take 4 ex_comments)"
  have c1: "ex_comment ''c1'' None 2 [''u1''] 10 \<in> descendants ex_comments ''c1''"
    by (rule descendants.target) (simp_all add: ex_comments_def ex_comment_sel)
  have c2: "ex_comment ''c2'' (Some ''c1'') 1 [] 20 \<in> descendants ex_comments ''c1''"
    by (rule descendants.reply[OF c1]) (simp_all add: ex_comments_def ex_comment_sel)
  have c3: "ex_comment ''c3'' (Some ''c1'') 0 [''u1'', ''u2''] 30 \<in> descendants ex_comments ''c1''"
    by (rule descendants.reply[OF c1]) (simp_all add: ex_comments_def ex_comment_sel)
  have c4: "ex_comment ''c4'' (Some ''c2'') 0 [] 40 \<in> descendants ex_comments ''c1''"
    by (rule descendants.reply[OF c2]) (simp_all add: ex_comments_def ex_comment_sel)
  from x c1 c2 c3 c4 show "x \<in> descendants ex_comments ''c1''"
    by (auto simp: ex_comments_def)
qed

lemma ex_distinct: "distinct (map c_id ex_comments)"
  by (simp add: ex_comments_def ex_comment_sel)

lemma ex_nonempty: "[] \<notin> c_id ` set ex_comments"
  by (simp add: ex_comments_def ex_comment_sel)

lemma ex_target: "findById ex_comments ''c1'' = Some (hd ex_comments)"
  by (simp add: ex_comments_def ex_comment_sel findById_def)

lemma ex_outside:
  "filter (\<lambda>c. c \<notin> set (take 4 ex_comments)) ex_comments = [ex_comment ''c5'' None 0 [] 50]"
  by (simp add: ex_comments_def ex_comment_eq)

lemma ex_inside:
  "filter (\<lambda>c. c \<in> set (take 4 ex_comments)) ex_comments = take 4 ex_comments"
  by (simp add: ex_comments_def ex_comment_eq)

lemma gone_from_set: "set (gone cs cs') = D \<Longrightarrow> gone cs cs' = filter (\<lambda>c. c \<in> D) cs"
  unfolding gone_def by (auto intro: filter_cong)

section \<open>Deleting a comment: the subtree and the counters\<close>

text \<open>
  C1. In a collection with unique keys, deleting an existing comment removes the comment
  and all its transitive descendants, and nothing else: the keys left are those of the
  comments outside the subtree, no key of the subtree is left, and no comment that is
  left has the key of a removed comment as its \<open>parent\<close>. This holds for both
  \<^verbatim>\<open>DELETE\<close> handlers (the second refuses an empty id), whether or not the article is
  found afterwards.
\<close>

theorem delete_removes_subtree:
  assumes "distinct (map c_id cs)" and "findById cs comment_id = Some t"
  shows "t \<in> descendants cs comment_id \<and>
     map c_id (fst (snd (delete_comments (cs, as) comment_id))) =
       map c_id (filter (\<lambda>c. c \<notin> descendants cs comment_id) cs) \<and>
     (\<forall>x\<in>descendants cs comment_id.
        c_id x \<notin> c_id ` set (fst (snd (delete_comments (cs, as) comment_id)))) \<and>
     (\<forall>r\<in>set (fst (snd (delete_comments (cs, as) comment_id))).
        \<forall>x\<in>descendants cs comment_id. c_parent r \<noteq> Some (c_id x)) \<and>
     (comment_id \<noteq> [] \<longrightarrow>
        map c_id (fst (snd (delete_replyke_comments (cs, as) comment_id))) =
          map c_id (filter (\<lambda>c. c \<notin> descendants cs comment_id) cs) \<and>
        (\<forall>x\<in>descendants cs comment_id.
           c_id x \<notin> c_id ` set (fst (snd (delete_replyke_comments (cs, as) comment_id)))) \<and>
        (\<forall>r\<in>set (fst (snd (delete_replyke_comments (cs, as) comment_id))).
           \<forall>x\<in>descendants cs comment_id. c_parent r \<noteq> Some (c_id x)))"
  using subtree_removed[OF assms comments_after_delete(1)[OF assms]]
    subtree_removed[OF assms comments_after_delete(2)[OF assms]]
  by blast

theorem delete_removes_subtree_witness:
  "distinct (map c_id ex_comments) \<and>
   findById ex_comments ''c1'' = Some (hd ex_comments) \<and>
   map c_id (fst (snd (delete_comments (ex_comments, ex_articles) ''c1''))) = [''c5''] \<and>
   map c_id (fst (snd (delete_replyke_comments (ex_comments, ex_articles) ''c1''))) = [''c5'']"
  using delete_removes_subtree [OF ex_distinct ex_target, of ex_articles]
    ex_distinct ex_target
  by (simp add: ex_subtree ex_outside ex_comment_sel)

text \<open>
  C2. In a collection with unique keys, deleting an existing comment whose article
  exists lowers the article's \<open>comments_count\<close> by the number of removed comments
  without a parent and its \<open>replies_count\<close> by the number of removed comments with a
  parent, the removed comments being the whole subtree of the target; both counters
  change in one update of the article, and the updated article is sent back. When the
  article is missing the request fails with 500 (\<^verbatim>\<open>No article found\<close>, or
  \<^verbatim>\<open>Server error\<close> on the second handler) and the articles are left as they were.
\<close>

theorem delete_counter_conservation:
  assumes "distinct (map c_id cs)" and "findById cs comment_id = Some t"
  shows
    "(\<forall>a. findOne as (c_article_id t) = Some a \<longrightarrow>
        (\<exists>cs' n_root n_reply.
           delete_comments (cs, as) comment_id =
             (Inr (lower_counters n_root n_reply a),
              (cs', findOneAndUpdate as (c_article_id t) (lower_counters n_root n_reply))) \<and>
           set (gone cs cs') = descendants cs comment_id \<and>
           n_root = int (length (filter (\<lambda>c. \<not> truthy (c_parent c)) (gone cs cs'))) \<and>
           n_reply = int (length (filter (\<lambda>c. truthy (c_parent c)) (gone cs cs'))) \<and>
           findOne (findOneAndUpdate as (c_article_id t) (lower_counters n_root n_reply))
             (c_article_id t) = Some (lower_counters n_root n_reply a))) \<and>
     (findOne as (c_article_id t) = None \<longrightarrow>
        fst (delete_comments (cs, as) comment_id) = Inl (500, ''No article found'') \<and>
        snd (snd (delete_comments (cs, as) comment_id)) = as) \<and>
     (comment_id \<noteq> [] \<longrightarrow>
        (\<forall>a. findOne as (c_article_id t) = Some a \<longrightarrow>
           (\<exists>cs' n_root n_reply.
              delete_replyke_comments (cs, as) comment_id =
                (Inr (lower_counters n_root n_reply a),
                 (cs', findOneAndUpdate as (c_article_id t) (lower_counters n_root n_reply))) \<and>
              set (gone cs cs') = descendants cs comment_id \<and>
              n_root = int (length (filter (\<lambda>c. \<not> truthy (c_parent c)) (gone cs cs'))) \<and>
              n_reply = int (length (filter (\<lambda>c. truthy (c_parent c)) (gone cs cs'))) \<and>
              findOne (findOneAndUpdate as (c_article_id t) (lower_counters n_root n_reply))
                (c_article_id t) = Some (lower_counters n_root n_reply a))) \<and>
        (findOne as (c_article_id t) = None \<longrightarrow>
           fst (delete_replyke_comments (cs, as) comment_id) = Inl (500, ''Server error'') \<and>
           snd (snd (delete_replyke_comments (cs, as) comment_id)) = as))"
proof (intro conjI allI impI)
  fix a assume a: "findOne as (c_article_id t) = Some a"
  show "\<exists>cs' n_root n_reply.
           delete_comments (cs, as) comment_id =
             (Inr (lower_counters n_root n_reply a),
              (cs', findOneAndUpdate as (c_article_id t) (lower_counters n_root n_reply))) \<and>
           set (gone cs cs') = descendants cs comment_id \<and>
           n_root = int (length (filter (\<lambda>c. \<not> truthy (c_parent c)) (gone cs cs'))) \<and>
           n_reply = int (length (filter (\<lambda>c. truthy (c_parent c)) (gone cs cs'))) \<and>
           findOne (findOneAndUpdate as (c_article_id t) (lower_counters n_root n_reply))
             (c_article_id t) = Some (lower_counters n_root n_reply a)"
    by (rule conservation[OF assms a]) (simp add: delete_comments_result[OF assms] a)
next
  assume "findOne as (c_article_id t) = None"
  then show "fst (delete_comments (cs, as) comment_id) = Inl (500, ''No article found'')"
    and "snd (snd (delete_comments (cs, as) comment_id)) = as"
    by (simp_all add: delete_comments_result[OF assms])
next
  fix a assume i: "comment_id \<noteq> []" and a: "findOne as (c_article_id t) = Some a"
  show "\<exists>cs' n_root n_reply.
           delete_replyke_comments (cs, as) comment_id =
             (Inr (lower_counters n_root n_reply a),
              (cs', findOneAndUpdate as (c_article_id t) (lower_counters n_root n_reply))) \<and>
           set (gone cs cs') = descendants cs comment_id \<and>
           n_root = int (length (filter (\<lambda>c. \<not> truthy (c_parent c)) (gone cs cs'))) \<and>
           n_reply = int (length (filter (\<lambda>c. truthy (c_parent c)) (gone cs cs'))) \<and>
           findOne (findOneAndUpdate as (c_article_id t) (lower_counters n_root n_reply))
             (c_article_id t) = Some (lower_counters n_root n_reply a)"
    by (rule conservation[OF assms a]) (simp add: delete_replyke_comments_result[OF assms i] a)
next
  assume i: "comment_id \<noteq> []" and "findOne as (c_article_id t) = None"
  then show "fst (delete_replyke_comments (cs, as) comment_id) = Inl (500, ''Server error'')"
    and "snd (snd (delete_replyke_comments (cs, as) comment_id)) = as"
    by (simp_all add: delete_replyke_comments_result[OF assms i])
qed

theorem delete_counter_conservation_witness:
  "distinct (map c_id ex_comments) \<and>
   findById ex_comments ''c1'' = Some (hd ex_comments) \<and>
   findOne ex_articles (c_article_id (hd ex_comments)) = Some (hd ex_articles) \<and>
   fst (delete_comments (ex_comments, ex_articles) ''c1'') =
     Inr \<lparr>a_article_id = ''a1'', a_likes = [''u1''], a_likes_count = 1,
          a_comments_count = 1, a_replies_count = 0\<rparr> \<and>
   fst (delete_replyke_comments (ex_comments, ex_articles) ''c1'') =
     Inr \<lparr>a_article_id = ''a1'', a_likes = [''u1''], a_likes_count = 1,
          a_comments_count = 1, a_replies_count = 0\<rparr> \<and>
   findOne [] (c_article_id (hd ex_comments)) = None \<and>
   fst (delete_comments (ex_comments, []) ''c1'') = Inl (500, ''No article found'') \<and>
   fst (delete_replyke_comments (ex_comments, []) ''c1'') = Inl (500, ''Server error'')"
proof -
  have a: "findOne ex_articles (c_article_id (hd ex_comments)) = Some (hd ex_articles)"
    by (simp add: findOne_def ex_articles_def ex_comments_def ex_comment_sel)
  have n: "findOne [] (c_article_id (hd ex_comments)) = None"
    by (simp add: findOne_def)
  have g: "set (gone ex_comments cs') = descendants ex_comments ''c1'' \<Longrightarrow>
      gone ex_comments cs' = take 4 ex_comments" for cs'
    by (drule gone_from_set) (simp add: ex_subtree ex_inside)
  have v: "lower_counters
        (int (length (filter (\<lambda>c. \<not> truthy (c_parent c)) (take 4 ex_comments))))
        (int (length (filter (\<lambda>c. truthy (c_parent c)) (take 4 ex_comments))))
        (hd ex_articles) =
      \<lparr>a_article_id = ''a1'', a_likes = [''u1''], a_likes_count = 1,
       a_comments_count = 1, a_replies_count = 0\<rparr>"
    by (simp add: lower_counters_def ex_comments_def ex_comment_sel ex_articles_def)
  have "fst (delete_comments (ex_comments, ex_articles) ''c1'') =
     Inr \<lparr>a_article_id = ''a1'', a_likes = [''u1''], a_likes_count = 1,
          a_comments_count = 1, a_replies_count = 0\<rparr>"
    and "fst (delete_replyke_comments (ex_comments, ex_articles) ''c1'') =
     Inr \<lparr>a_article_id = ''a1'', a_likes = [''u1''], a_likes_count = 1,
          a_comments_count = 1, a_replies_count = 0\<rparr>"
    using delete_counter_conservation [OF ex_distinct ex_target, of ex_articles] a g v
    by auto
  moreover have "fst (delete_comments (ex_comments, []) ''c1'') = Inl (500, ''No article found'')"
    and "fst (delete_replyke_comments (ex_comments, []) ''c1'') = Inl (500, ''Server error'')"
    using delete_counter_conservation [OF ex_distinct ex_target, of "[]"] n
    by auto
  ultimately show ?thesis using ex_distinct ex_target a n by blast
qed

text \<open>
  C10. In a collection with unique, non-empty keys, the recursion started by
  \<^verbatim>\<open>DELETE\<close> on an existing comment ends without an error; the count of first-level
  comments is 1 when the target has no parent and 0 when it has one; the count of replies
  is the number of removed comments minus the count of first-level ones; and every
  removed comment other than the target has a parent.
\<close>

theorem deleted_counts_classification:
  assumes "distinct (map c_id cs)" and "[] \<notin> c_id ` set cs"
    and "findById cs comment_id = Some t"
  shows "\<exists>cs' firstLevelCommentsDeletedCount repliesDeletedCount.
     deleteCommentAndChildren (cs, 0, 0) comment_id =
       Inr (cs', firstLevelCommentsDeletedCount, repliesDeletedCount) \<and>
     firstLevelCommentsDeletedCount = (if truthy (c_parent t) then 0 else 1) \<and>
     repliesDeletedCount =
       int (length cs) - int (length cs') - firstLevelCommentsDeletedCount \<and>
     cs' = filter (\<lambda>c. c \<notin> descendants cs comment_id) cs \<and>
     (\<forall>x\<in>descendants cs comment_id. x \<noteq> t \<longrightarrow> truthy (c_parent x))"
proof -
  let ?D = "descendants cs comment_id"
  let ?F = "\<lambda>c. \<not> truthy (c_parent c)"
  let ?R = "\<lambda>c. truthy (c_parent c)"
  from assms(3) have tm: "t \<in> set cs" "c_id t = comment_id" by (auto dest: findById_mem)
  then have tD: "t \<in> ?D" by (auto intro: descendants.target)
  have run: "deleteCommentAndChildren (cs, 0, 0) comment_id = Inr (after (cs, 0, 0) ?D)"
    using deleteCommentAndChildren_subtree(1)[of "(cs, 0, 0)" comment_id] assms(1) tm by auto
  have only: "x \<in> ?D \<Longrightarrow> ?F x \<Longrightarrow> x = t" for x
    using first_level_only_target[OF assms] by blast
  have "filter (\<lambda>c. c \<in> ?D \<and> ?F c) cs = filter (\<lambda>c. c \<in> {t} \<and> ?F c) cs"
    using only tD by (intro filter_cong) auto
  then have "tally ?D ?F cs = tally {t} ?F cs" by (simp add: tally_def)
  also have "\<dots> = (if ?F t then 1 else 0)"
    using assms(1) tm by (simp add: tally_single distinct_map)
  finally have fl: "tally ?D ?F cs = (if truthy (c_parent t) then 0 else 1)" by simp
  have "length cs = length (filter (\<lambda>c. c \<in> ?D) cs) + length (filter (\<lambda>c. c \<notin> ?D) cs)"
    using sum_length_filter_compl[of "\<lambda>c. c \<in> ?D" cs] by simp
  moreover have "length (filter (\<lambda>c. c \<in> ?D) cs) =
      length (filter ?F (filter (\<lambda>c. c \<in> ?D) cs)) + length (filter ?R (filter (\<lambda>c. c \<in> ?D) cs))"
    using sum_length_filter_compl[of ?R "filter (\<lambda>c. c \<in> ?D) cs"] by simp
  ultimately have rp: "tally ?D ?R cs =
      int (length cs) - int (length (filter (\<lambda>c. c \<notin> ?D) cs)) - tally ?D ?F cs"
    by (simp add: tally_def)
  show ?thesis
    using run fl rp only by (auto simp: after_def)
qed

theorem deleted_counts_classification_witness:
  "distinct (map c_id ex_comments) \<and>
   [] \<notin> c_id ` set ex_comments \<and>
   findById ex_comments ''c1'' = Some (hd ex_comments) \<and>
   deleteCommentAndChildren (ex_comments, 0, 0) ''c1'' =
     Inr ([ex_comment ''c5'' None 0 [] 50], 1, 3)"
  using deleted_counts_classification [OF ex_distinct ex_nonempty ex_target]
    ex_distinct ex_nonempty ex_target
  by (auto simp: ex_subtree ex_outside) (simp_all add: ex_comments_def ex_comment_sel)

section \<open>Creating a comment\<close>

lemma update_first_append_unmatched:
  "\<forall>x\<in>set xs. \<not> P x \<Longrightarrow> update_first P f (xs @ ys) = xs @ update_first P f ys"
  by (induction xs) auto

lemma count_comment_fun:
  "(\<lambda>a. a\<lparr>a_replies_count := a_replies_count a + 1\<rparr>) = count_comment (Some (x # xs))"
  "truthy parent \<Longrightarrow> (\<lambda>a. a\<lparr>a_replies_count := a_replies_count a + 1\<rparr>) = count_comment parent"
  "\<not> truthy parent \<Longrightarrow> (\<lambda>a. a\<lparr>a_comments_count := a_comments_count a + 1\<rparr>) = count_comment parent"
  by (auto simp: count_comment_def fun_eq_iff)

lemma findOne_counted:
  "findOne as aid = Some a \<Longrightarrow>
   findOne (findOneAndUpdate as aid (count_comment parent)) aid = Some (count_comment parent a)"
  unfolding findOne_def findOneAndUpdate_def
  by (simp add: find_update_first count_comment_def)

lemma post_comments_articles:
  "snd (snd (post_comments (cs, as) article_id comment_body parent author new_id now)) =
     (case findOne as article_id of
        Some a \<Rightarrow> findOneAndUpdate as article_id (count_comment parent)
      | None \<Rightarrow> as @ [new_article article_id])"
  by (auto simp: post_comments_def Let_def new_article_def count_comment_fun
        split: option.splits)

lemma post_replyke_comments_articles:
  "article_id \<noteq> [] \<Longrightarrow> comment_body \<noteq> [] \<Longrightarrow> author \<noteq> None \<Longrightarrow>
   snd (snd (post_replyke_comments (cs, as) article_id comment_body parent author new_id now)) =
     (case findOne as article_id of
        Some a \<Rightarrow> findOneAndUpdate as article_id (count_comment parent)
      | None \<Rightarrow> as @ [new_article article_id])"
  by (auto simp: post_replyke_comments_def Let_def new_article_def count_comment_fun
        split: option.splits)

lemma post_comments_unresolved:
  assumes "p \<notin> c_id ` set cs"
  shows "fst (post_comments (cs, as) article_id comment_body (Some p) author new_id now) =
           Inr (new_comment article_id comment_body (Some p) author new_id now)"
    and "fst (snd (post_comments (cs, as) article_id comment_body (Some p) author new_id now)) =
           cs @ [if p = new_id \<and> p \<noteq> []
                 then (new_comment article_id comment_body (Some p) author new_id now)
                        \<lparr>c_replies_count := 1\<rparr>
                 else new_comment article_id comment_body (Some p) author new_id now]"
proof -
  have un: "\<forall>x\<in>set cs. \<not> c_id x = p" using assms by auto
  show "fst (post_comments (cs, as) article_id comment_body (Some p) author new_id now) =
           Inr (new_comment article_id comment_body (Some p) author new_id now)"
    by (simp add: post_comments_def Let_def new_comment_def split: option.splits)
  show "fst (snd (post_comments (cs, as) article_id comment_body (Some p) author new_id now)) =
           cs @ [if p = new_id \<and> p \<noteq> []
                 then (new_comment article_id comment_body (Some p) author new_id now)
                        \<lparr>c_replies_count := 1\<rparr>
                 else new_comment article_id comment_body (Some p) author new_id now]"
    using un
    by (auto simp: post_comments_def Let_def new_comment_def findByIdAndUpdate_def
          update_first_append_unmatched split: option.splits)
qed

lemma post_replyke_comments_unresolved:
  assumes "p \<notin> c_id ` set cs" and "article_id \<noteq> []" "comment_body \<noteq> []" "author \<noteq> None"
  shows "fst (post_replyke_comments (cs, as) article_id comment_body (Some p) author new_id now) =
           Inr (new_comment article_id comment_body (Some p) author new_id now)"
    and "fst (snd (post_replyke_comments (cs, as) article_id comment_body (Some p) author new_id now)) =
           cs @ [if p = new_id \<and> p \<noteq> []
                 then (new_comment article_id comment_body (Some p) author new_id now)
                        \<lparr>c_replies_count := 1\<rparr>
                 else new_comment article_id comment_body (Some p) author new_id now]"
proof -
  have un: "\<forall>x\<in>set cs. \<not> c_id x = p" using assms by auto
  show "fst (post_replyke_comments (cs, as) article_id comment_body (Some p) author new_id now) =
           Inr (new_comment article_id comment_body (Some p) author new_id now)"
    using assms(2-)
    by (simp add: post_replyke_comments_def Let_def new_comment_def split: option.splits)
  show "fst (snd (post_replyke_comments (cs, as) article_id comment_body (Some p) author new_id now)) =
           cs @ [if p = new_id \<and> p \<noteq> []
                 then (new_comment article_id comment_body (Some p) author new_id now)
                        \<lparr>c_replies_count := 1\<rparr>
                 else new_comment article_id comment_body (Some p) author new_id now]"
    using un assms(2-)
    by (auto simp: post_replyke_comments_def Let_def new_comment_def findByIdAndUpdate_def
          update_first_append_unmatched split: option.splits)
qed

text \<open>
  What the two \<^verbatim>\<open>POST\<close> handlers do to the article in the cases where the kind of the
  comment is looked at or does not matter: an existing article has \<open>replies_count\<close>
  raised by 1 for a comment with a (non-empty) parent and \<open>comments_count\<close> raised by 1
  for one without; a missing article is created with \<open>comments_count = 1\<close> and every other
  counter zero for a comment without a parent. On \<^verbatim>\<open>POST /replyke-comments\<close> this is so
  for a request that has its required fields.
\<close>

lemma create_counts_where_checked:
  "(\<forall>a. findOne as article_id = Some a \<longrightarrow>
       snd (snd (post_comments (cs, as) article_id comment_body parent author new_id now)) =
         findOneAndUpdate as article_id (count_comment parent) \<and>
       findOne (snd (snd (post_comments (cs, as) article_id comment_body parent author new_id now)))
         article_id = Some (count_comment parent a)) \<and>
   (findOne as article_id = None \<and> \<not> truthy parent \<longrightarrow>
       snd (snd (post_comments (cs, as) article_id comment_body parent author new_id now)) =
         as @ [new_article article_id]) \<and>
   (article_id \<noteq> [] \<and> comment_body \<noteq> [] \<and> author \<noteq> None \<longrightarrow>
      (\<forall>a. findOne as article_id = Some a \<longrightarrow>
         snd (snd (post_replyke_comments (cs, as) article_id comment_body parent author new_id now)) =
           findOneAndUpdate as article_id (count_comment parent) \<and>
         findOne (snd (snd (post_replyke_comments (cs, as) article_id comment_body parent author
           new_id now))) article_id = Some (count_comment parent a)) \<and>
      (findOne as article_id = None \<and> \<not> truthy parent \<longrightarrow>
         snd (snd (post_replyke_comments (cs, as) article_id comment_body parent author new_id now)) =
           as @ [new_article article_id]))"
  by (simp add: post_comments_articles post_replyke_comments_articles findOne_counted)

text \<open>
  C3. A reply posted for an article that has no document yet should seed
  \<open>replies_count\<close> with 1 and leave \<open>comments_count\<close> at 0. Both \<^verbatim>\<open>POST\<close> handlers
  create the article with \<open>comments_count = 1\<close> and \<open>replies_count = 0\<close> instead,
  without looking at the parent, where their branch for an existing article does count
  a reply in \<open>replies_count\<close>. Deleting that reply afterwards leaves no comment and an
  article with \<open>comments_count = 1\<close> and \<open>replies_count = -1\<close>.
\<close>

theorem create_reply_without_article:
  "post_comments ([], []) ''a1'' ''hello'' (Some ''p1'') None ''c1'' 0 =
     (Inr (new_comment ''a1'' ''hello'' (Some ''p1'') None ''c1'' 0),
      ([new_comment ''a1'' ''hello'' (Some ''p1'') None ''c1'' 0],
       [\<lparr>a_article_id = ''a1'', a_likes = [], a_likes_count = 0, a_comments_count = 1,
         a_replies_count = 0\<rparr>])) \<and>
   snd (snd (post_replyke_comments ([], []) ''a1'' ''hello'' (Some ''p1'')
        (Some \<lparr>au_id = ''u1'', au_name = ''Ann'', au_img = None\<rparr>) ''c1'' 0)) =
     [\<lparr>a_article_id = ''a1'', a_likes = [], a_likes_count = 0, a_comments_count = 1,
       a_replies_count = 0\<rparr>] \<and>
   delete_comments
       (snd (post_comments ([], []) ''a1'' ''hello'' (Some ''p1'') None ''c1'' 0)) ''c1'' =
     (Inr \<lparr>a_article_id = ''a1'', a_likes = [], a_likes_count = 0, a_comments_count = 1,
           a_replies_count = - 1\<rparr>,
      ([], [\<lparr>a_article_id = ''a1'', a_likes = [], a_likes_count = 0, a_comments_count = 1,
             a_replies_count = - 1\<rparr>]))"
proof -
  have p: "post_comments ([], []) ''a1'' ''hello'' (Some ''p1'') None ''c1'' 0 =
     (Inr (new_comment ''a1'' ''hello'' (Some ''p1'') None ''c1'' 0),
      ([new_comment ''a1'' ''hello'' (Some ''p1'') None ''c1'' 0],
       [\<lparr>a_article_id = ''a1'', a_likes = [], a_likes_count = 0, a_comments_count = 1,
         a_replies_count = 0\<rparr>]))"
    by (simp add: post_comments_def findOne_def Let_def new_comment_def findByIdAndUpdate_def)
  have r: "snd (snd (post_replyke_comments ([], []) ''a1'' ''hello'' (Some ''p1'')
        (Some \<lparr>au_id = ''u1'', au_name = ''Ann'', au_img = None\<rparr>) ''c1'' 0)) =
     [\<lparr>a_article_id = ''a1'', a_likes = [], a_likes_count = 0, a_comments_count = 1,
       a_replies_count = 0\<rparr>]"
    by (simp add: post_replyke_comments_def findOne_def Let_def)
  have sel: "c_id (new_comment ''a1'' ''hello'' (Some ''p1'') None ''c1'' 0) = ''c1''"
    "c_parent (new_comment ''a1'' ''hello'' (Some ''p1'') None ''c1'' 0) = Some ''p1''"
    "c_article_id (new_comment ''a1'' ''hello'' (Some ''p1'') None ''c1'' 0) = ''a1''"
    by (simp_all add: new_comment_def)
  have run: "deleteCommentAndChildren
      ([new_comment ''a1'' ''hello'' (Some ''p1'') None ''c1'' 0], 0, 0) ''c1'' = Inr ([], 0, 1)"
    by (simp add: deleteCommentAndChildren.simps findByIdAndDelete_def findById_def sel)
  have d: "delete_comments
       ([new_comment ''a1'' ''hello'' (Some ''p1'') None ''c1'' 0],
        [\<lparr>a_article_id = ''a1'', a_likes = [], a_likes_count = 0, a_comments_count = 1,
          a_replies_count = 0\<rparr>]) ''c1'' =
     (Inr \<lparr>a_article_id = ''a1'', a_likes = [], a_likes_count = 0, a_comments_count = 1,
           a_replies_count = - 1\<rparr>,
      ([], [\<lparr>a_article_id = ''a1'', a_likes = [], a_likes_count = 0, a_comments_count = 1,
             a_replies_count = - 1\<rparr>]))"
    by (simp add: delete_comments_def run findById_def sel findByIdAndUpdate_def findOne_def
          findOneAndUpdate_def)
  show ?thesis using p r d by simp
qed

text \<open>
  C9. Creating a comment whose parent id resolves to no comment still succeeds: the new
  comment is sent back and is appended to the collection, whose other comments are left
  as they were. (Should the unresolved id be the very key the store gives the new
  comment, the update by key meets the new comment itself and raises its
  \<open>replies_count\<close>.) On \<^verbatim>\<open>POST /replyke-comments\<close> this is so for a request that has
  its required fields.
\<close>

theorem create_with_unresolved_parent:
  assumes "p \<notin> c_id ` set cs"
  shows
   "fst (post_comments (cs, as) article_id comment_body (Some p) author new_id now) =
      Inr (new_comment article_id comment_body (Some p) author new_id now) \<and>
    fst (snd (post_comments (cs, as) article_id comment_body (Some p) author new_id now)) =
      cs @ [if p = new_id \<and> p \<noteq> []
            then (new_comment article_id comment_body (Some p) author new_id now)
                   \<lparr>c_replies_count := 1\<rparr>
            else new_comment article_id comment_body (Some p) author new_id now] \<and>
    (article_id \<noteq> [] \<and> comment_body \<noteq> [] \<and> author \<noteq> None \<longrightarrow>
       fst (post_replyke_comments (cs, as) article_id comment_body (Some p) author new_id now) =
         Inr (new_comment article_id comment_body (Some p) author new_id now) \<and>
       fst (snd (post_replyke_comments (cs, as) article_id comment_body (Some p) author new_id now)) =
         cs @ [if p = new_id \<and> p \<noteq> []
               then (new_comment article_id comment_body (Some p) author new_id now)
                      \<lparr>c_replies_count := 1\<rparr>
               else new_comment article_id comment_body (Some p) author new_id now])"
  using post_comments_unresolved[OF assms] post_replyke_comments_unresolved[OF assms]
  by simp

theorem create_with_unresolved_parent_witness:
  "''zz'' \<notin> c_id ` set ex_comments \<and>
   fst (post_comments (ex_comments, ex_articles) ''a1'' ''hello'' (Some ''zz'') None ''c6'' 60) =
     Inr (new_comment ''a1'' ''hello'' (Some ''zz'') None ''c6'' 60) \<and>
   fst (snd (post_comments (ex_comments, ex_articles) ''a1'' ''hello'' (Some ''zz'') None
        ''c6'' 60)) =
     ex_comments @ [new_comment ''a1'' ''hello'' (Some ''zz'') None ''c6'' 60] \<and>
   ''a1'' \<noteq> [] \<and> ''hello'' \<noteq> [] \<and>
   Some \<lparr>au_id = ''u1'', au_name = ''Ann'', au_img = None\<rparr> \<noteq> None \<and>
   fst (snd (post_replyke_comments (ex_comments, ex_articles) ''a1'' ''hello'' (Some ''zz'')
        (Some \<lparr>au_id = ''u1'', au_name = ''Ann'', au_img = None\<rparr>) ''c6'' 60)) =
     ex_comments @ [new_comment ''a1'' ''hello'' (Some ''zz'')
        (Some \<lparr>au_id = ''u1'', au_name = ''Ann'', au_img = None\<rparr>) ''c6'' 60]"
proof -
  have z: "''zz'' \<notin> c_id ` set ex_comments"
    by (simp add: ex_comments_def ex_comment_sel)
  show ?thesis
    using create_with_unresolved_parent [OF z, of ex_articles "''a1''" "''hello''" None "''c6''" 60]
      create_with_unresolved_parent [OF z, of ex_articles "''a1''" "''hello''"
        "Some \<lparr>au_id = ''u1'', au_name = ''Ann'', au_img = None\<rparr>" "''c6''" 60]
      z
    by simp
qed

section \<open>Updating the body of a comment\<close>

lemma update_first_find_None: "find P xs = None \<Longrightarrow> update_first P f xs = xs"
  by (induction xs) (auto split: if_splits)

lemma patch_comment_body:
  "findById cs comment_id = Some c \<Longrightarrow>
     patch_comments (cs, as) update comment_id =
       (Inr (), (findByIdAndUpdate cs comment_id (\<lambda>c. c\<lparr>c_body := update\<rparr>), as)) \<and>
     findById (findByIdAndUpdate cs comment_id (\<lambda>c. c\<lparr>c_body := update\<rparr>)) comment_id =
       Some (c\<lparr>c_body := update\<rparr>) \<and>
     map c_likes_count (findByIdAndUpdate cs comment_id (\<lambda>c. c\<lparr>c_body := update\<rparr>)) =
       map c_likes_count cs \<and>
     map c_replies_count (findByIdAndUpdate cs comment_id (\<lambda>c. c\<lparr>c_body := update\<rparr>)) =
       map c_replies_count cs"
  "findById cs comment_id = Some c \<Longrightarrow> update \<noteq> [] \<Longrightarrow> comment_id \<noteq> [] \<Longrightarrow>
     patch_replyke_comments (cs, as) update comment_id =
       (Inr (c\<lparr>c_body := update\<rparr>),
        (findByIdAndUpdate cs comment_id (\<lambda>c. c\<lparr>c_body := update\<rparr>), as))"
  "findById cs comment_id = None \<Longrightarrow> update \<noteq> [] \<Longrightarrow> comment_id \<noteq> [] \<Longrightarrow>
     patch_replyke_comments (cs, as) update comment_id =
       (Inl (404, ''Comment not found or update failed''), (cs, as))"
  "findById cs comment_id = None \<Longrightarrow>
     patch_comments (cs, as) update comment_id = (Inr (), (cs, as))"
  by (simp_all add: patch_comments_def patch_replyke_comments_def findById_def
        findByIdAndUpdate_def find_update_first map_update_first update_first_find_None)

text \<open>
  C8. \<^verbatim>\<open>PATCH /comments\<close> with an id that resolves to no comment answers 200 and
  changes nothing, where the claim asks for a failure (not found);
  \<^verbatim>\<open>PATCH /replyke-comments\<close> answers the same request with 404.
\<close>

theorem patch_comments_unknown_id:
  "findById (fst ex_store) ''c9'' = None \<and>
   patch_comments ex_store ''new text'' ''c9'' = (Inr (), ex_store) \<and>
   patch_replyke_comments ex_store ''new text'' ''c9'' =
     (Inl (404, ''Comment not found or update failed''), ex_store)"
  by (simp add: patch_comments_def patch_replyke_comments_def findById_def
        findByIdAndUpdate_def ex_store_def ex_comments_def ex_comment_sel)

section \<open>Listing comments: validation and pages\<close>

lemma trunc_zero_iff: "q - of_int (trunc q) = 0 \<longleftrightarrow> of_int \<lfloor>q\<rfloor> = q"
proof (cases "0 \<le> q")
  case True
  then show ?thesis by (auto simp: trunc_def)
next
  case False
  have "(of_int \<lceil>q\<rceil> = q) = (of_int \<lfloor>q\<rfloor> = q)"
    by (metis ceiling_of_int floor_of_int)
  with False show ?thesis by (auto simp: trunc_def)
qed

lemma page_not_whole:
  "js_ne (js_mod (Fin q) (Fin 1)) (Fin 0) \<longleftrightarrow> of_int \<lfloor>q\<rfloor> \<noteq> q"
  using trunc_zero_iff[of q] by auto

lemma is_nat_of_nat: "is_nat (of_nat k)"
  by (simp add: is_nat_def)

lemma skip_count:
  "1 \<le> page \<Longrightarrow>
   js_mul (js_sub (Fin (of_nat page)) (Fin 1)) (Fin (of_nat limit)) =
     Fin (of_nat ((page - 1) * limit))"
  by (simp add: of_nat_diff)

lemma find_comments_page:
  "1 \<le> limit \<Longrightarrow>
   find_comments cs article_id parent order (Fin (of_nat skip)) (Fin (of_nat limit)) =
     Inr (take limit (drop skip (sort_key (sort_key_of order) (matching cs article_id parent))))"
  by (simp add: find_comments_def is_nat_of_nat)

lemma get_comments_valid:
  assumes "1 \<le> page" and "1 \<le> limit"
  shows "get_comments cs article_id sort_by parent (Fin (of_nat page)) (Fin (of_nat limit)) =
       (Inr (take limit (drop ((page - 1) * limit)
          (sort_key (sort_key_of (resolve_sort sort_by)) (matching cs article_id parent)))), 1)"
  unfolding get_comments_def Let_def skip_count[OF assms(1)] find_comments_page[OF assms(2)]
    page_not_whole
  using assms(1) by simp

lemma get_replyke_comments_valid:
  assumes "1 \<le> page" and "1 \<le> limit"
  shows "get_replyke_comments cs article_id sort_by parent (Fin (of_nat page)) (Fin (of_nat limit)) =
       (Inr (take limit (drop ((page - 1) * limit)
          (sort_key (sort_key_of (resolve_sort sort_by)) (matching cs article_id parent)))), 1)"
  unfolding get_replyke_comments_def Let_def skip_count[OF assms(1)] find_comments_page[OF assms(2)]
    page_not_whole
  using assms(1) by simp

lemma resolved_order:
  "sort_key_of (resolve_sort sort_by) a \<le> sort_key_of (resolve_sort sort_by) b \<Longrightarrow>
   in_order sort_by a b"
  by (auto simp: resolve_sort_def sort_key_of_def field_of_def in_order_def Let_def
        split: if_splits)

lemma resolved_unsorted:
  "sort_by \<notin> {Some ''popular'', Some ''newest'', Some ''oldest''} \<Longrightarrow>
   sort_key (sort_key_of (resolve_sort sort_by)) xs = xs"
proof -
  assume "sort_by \<notin> {Some ''popular'', Some ''newest'', Some ''oldest''}"
  then have "sort_key_of (resolve_sort sort_by) = (\<lambda>c. [])"
    by (auto simp: resolve_sort_def sort_key_of_def Let_def fun_eq_iff)
  then show ?thesis by (simp add: sort_key_const)
qed

lemma ranked_in_order:
  "sorted_wrt (in_order sort_by) (sort_key (sort_key_of (resolve_sort sort_by)) xs)"
proof -
  have "sorted (map (sort_key_of (resolve_sort sort_by))
          (sort_key (sort_key_of (resolve_sort sort_by)) xs))"
    by (rule sorted_sort_key)
  then have "sorted_wrt (\<lambda>a b. sort_key_of (resolve_sort sort_by) a
                 \<le> sort_key_of (resolve_sort sort_by) b)
               (sort_key (sort_key_of (resolve_sort sort_by)) xs)"
    by (simp add: sorted_map)
  then show ?thesis
    by (rule sorted_wrt_mono_rel[rotated]) (rule resolved_order)
qed

lemma ex_comment_sel2:
  "c_created_at (ex_comment i p n ls t) = t"
  "c_likes_count (ex_comment i p n ls t) = int (length ls)"
  by (simp_all add: ex_comment_def)

lemma ex_twelve_newest:
  "ranked (Some ''newest'') (matching ex_twelve ''a1'' None) =
     [ex_comment ''n12'' None 0 [] 12, ex_comment ''n11'' None 0 [] 11,
      ex_comment ''n10'' None 0 [] 10, ex_comment ''n09'' None 0 [] 9,
      ex_comment ''n08'' None 0 [] 8, ex_comment ''n07'' None 0 [] 7,
      ex_comment ''n06'' None 0 [] 6, ex_comment ''n05'' None 0 [] 5,
      ex_comment ''n04'' None 0 [] 4, ex_comment ''n03'' None 0 [] 3,
      ex_comment ''n02'' None 0 [] 2, ex_comment ''n01'' None 0 [] 1]"
  by (simp add: ranked_def matching_def ex_twelve_def ex_comment_sel ex_comment_sel2
        resolve_sort_def sort_key_of_def field_of_def Let_def)

text \<open>
  C6. A listing whose page or limit is not a number, whose page is below 1, or whose page
  is not whole fails with 500 (invalid pagination) before any query is sent to the store.
\<close>

theorem invalid_pagination_rejected:
  assumes "isNaN pageAsNumber \<or> isNaN limitAsNumber \<or> js_lt pageAsNumber (Fin 1) \<or>
           \<not> whole pageAsNumber"
  shows "(\<exists>msg. get_comments cs article_id sort_by parent pageAsNumber limitAsNumber =
                  (Inl (500, msg), 0) \<and>
                msg \<in> {''Invalid request: limit must be a number'',
                       ''Invalid request: page must be a number'',
                       ''Invalid request: page must be greater than 1'',
                       ''Invalid request: page must be a whole number''}) \<and>
         get_replyke_comments cs article_id sort_by parent pageAsNumber limitAsNumber =
           (Inl (500, ''Server error''), 0)"
proof (cases pageAsNumber)
  case NaN
  then show ?thesis by (cases limitAsNumber) (simp_all add: get_comments_def get_replyke_comments_def)
next
  case PosInf
  then show ?thesis by (cases limitAsNumber) (simp_all add: get_comments_def get_replyke_comments_def)
next
  case NegInf
  then show ?thesis by (cases limitAsNumber) (simp_all add: get_comments_def get_replyke_comments_def)
next
  case (Fin q)
  show ?thesis
  proof (cases "isNaN limitAsNumber")
    case True
    then show ?thesis by (simp add: get_comments_def get_replyke_comments_def)
  next
    case False
    with assms Fin have "q < 1 \<or> of_int \<lfloor>q\<rfloor> \<noteq> q" by (auto simp: whole_def)
    with False Fin show ?thesis
      unfolding get_comments_def get_replyke_comments_def page_not_whole
      by auto
  qed
qed

theorem invalid_pagination_rejected_witness:
  "js_lt (Fin 0) (Fin 1) \<and>
   get_replyke_comments ex_comments ''a1'' None None (Fin 0) (Fin 5) =
     (Inl (500, ''Server error''), 0) \<and>
   snd (get_comments ex_comments ''a1'' None None (Fin 0) (Fin 5)) = 0 \<and>
   \<not> whole (Fin (3 / 2)) \<and>
   get_replyke_comments ex_comments ''a1'' None None (Fin (3 / 2)) (Fin 5) =
     (Inl (500, ''Server error''), 0) \<and>
   snd (get_comments ex_comments ''a1'' None None (Fin (3 / 2)) (Fin 5)) = 0 \<and>
   isNaN NaN \<and>
   get_replyke_comments ex_comments ''a1'' None None (Fin 1) NaN =
     (Inl (500, ''Server error''), 0) \<and>
   snd (get_comments ex_comments ''a1'' None None (Fin 1) NaN) = 0"
proof -
  have a: "js_lt (Fin 0) (Fin 1)" by simp
  have "\<lfloor>(3::rat) / 2\<rfloor> = 1" by (rule floor_unique) simp_all
  then have b: "\<not> whole (Fin (3 / 2))" by (simp add: whole_def)
  have c: "isNaN NaN" by simp
  from a have "isNaN (Fin 0) \<or> isNaN (Fin 5) \<or> js_lt (Fin 0) (Fin 1) \<or> \<not> whole (Fin 0)"
    by blast
  note r1 = invalid_pagination_rejected [OF this, of ex_comments "''a1''" None None]
  from b have "isNaN (Fin (3 / 2)) \<or> isNaN (Fin 5) \<or> js_lt (Fin (3 / 2)) (Fin 1)
      \<or> \<not> whole (Fin (3 / 2))"
    by blast
  note r2 = invalid_pagination_rejected [OF this, of ex_comments "''a1''" None None]
  from c have "isNaN (Fin 1) \<or> isNaN NaN \<or> js_lt (Fin 1) (Fin 1) \<or> \<not> whole (Fin 1)"
    by blast
  note r3 = invalid_pagination_rejected [OF this, of ex_comments "''a1''" None None]
  from r1 r2 r3 a b c show ?thesis by auto
qed

text \<open>
  C7. A listing with a whole page \<open>\<ge> 1\<close> and a whole limit \<open>\<ge> 1\<close> sends one query and
  returns the comments that match the filter, ranked in the order asked for by
  \<^verbatim>\<open>sort_by\<close>, without the first \<open>(page - 1) * limit\<close> of them and cut to at most
  \<open>limit\<close>. The ranking is a permutation of the matching comments; for a
  \<^verbatim>\<open>sort_by\<close> other than \<^verbatim>\<open>popular\<close>, \<^verbatim>\<open>newest\<close> and \<^verbatim>\<open>oldest\<close> it is the
  matching comments in store order.
\<close>

theorem list_comments_page:
  assumes "1 \<le> page" and "1 \<le> limit"
  shows
    "get_comments cs article_id sort_by parent (Fin (of_nat page)) (Fin (of_nat limit)) =
       (Inr (take limit (drop ((page - 1) * limit)
               (ranked sort_by (matching cs article_id parent)))), 1) \<and>
     get_replyke_comments cs article_id sort_by parent (Fin (of_nat page)) (Fin (of_nat limit)) =
       (Inr (take limit (drop ((page - 1) * limit)
               (ranked sort_by (matching cs article_id parent)))), 1) \<and>
     length (take limit (drop ((page - 1) * limit)
               (ranked sort_by (matching cs article_id parent)))) \<le> limit \<and>
     mset (ranked sort_by (matching cs article_id parent)) = mset (matching cs article_id parent) \<and>
     sorted_wrt (in_order sort_by) (ranked sort_by (matching cs article_id parent)) \<and>
     (sort_by \<notin> {Some ''popular'', Some ''newest'', Some ''oldest''} \<longrightarrow>
        ranked sort_by (matching cs article_id parent) = matching cs article_id parent)"
  using get_comments_valid[OF assms] get_replyke_comments_valid[OF assms]
    ranked_in_order[of sort_by "matching cs article_id parent"]
    resolved_unsorted[of sort_by "matching cs article_id parent"]
  by (simp add: ranked_def)

theorem list_comments_page_witness:
  "(1::nat) \<le> 2 \<and> (1::nat) \<le> 5 \<and>
   get_comments ex_twelve ''a1'' (Some ''newest'') None (Fin 2) (Fin 5) =
     (Inr [ex_comment ''n07'' None 0 [] 7, ex_comment ''n06'' None 0 [] 6,
           ex_comment ''n05'' None 0 [] 5, ex_comment ''n04'' None 0 [] 4,
           ex_comment ''n03'' None 0 [] 3], 1) \<and>
   get_replyke_comments ex_twelve ''a1'' (Some ''newest'') None (Fin 2) (Fin 5) =
     (Inr [ex_comment ''n07'' None 0 [] 7, ex_comment ''n06'' None 0 [] 6,
           ex_comment ''n05'' None 0 [] 5, ex_comment ''n04'' None 0 [] 4,
           ex_comment ''n03'' None 0 [] 3], 1)"
  using list_comments_page [of 2 5 ex_twelve "''a1''" "Some ''newest''" None]
  by (simp add: ex_twelve_newest)

end
